theory Spec2Isabelle
  imports Complex_Main "HOL-Library.Word" "HOL-Library.Multiset"
begin

unbundle bit_operations_syntax

section \<open>Numbers and absent values\<close>

text \<open>
  A JavaScript number is an IEEE 754 double. The finite doubles are modelled as the reals
  they denote, and every arithmetic operation of the source rounds its exact result to the
  nearest double, a tie going to the double with an even significand (\<open>rnd\<close>). The
  infinities, and results of a magnitude above the largest double, are outside the model.
  NaN is a value of \<open>jsval\<close> below, the type of the properties in which the adapters can
  store it. A property that is missing, \<^verbatim>\<open>undefined\<close> or \<^verbatim>\<open>null\<close> and is only tested by
  \<^verbatim>\<open>x != null\<close> or \<^verbatim>\<open>x || y\<close> is \<open>None\<close>.
\<close>

type_synonym number = real

text \<open>The integer nearest to a real, a tie going to the even one.\<close>

definition round_even :: "real \<Rightarrow> int" where
  "round_even r =
     (let f = \<lfloor>r\<rfloor>
      in if r - of_int f < 1 / 2 then f
         else if 1 / 2 < r - of_int f then f + 1
         else if even f then f else f + 1)"

text \<open>
  The binary exponent of a double's binade: the greatest \<open>k\<close> from \<open>-1022\<close> to \<open>1023\<close> with
  \<open>2^k \<le> a\<close>, and \<open>-1022\<close> (the subnormal range) when there is none.
\<close>

function expo_search :: "int \<Rightarrow> real \<Rightarrow> int" where
  "expo_search k a =
     (if k \<le> - 1022 then - 1022
      else if 2 powi k \<le> a then k
      else expo_search (k - 1) a)"
  by pat_completeness auto

termination expo_search
  by (relation "measure (\<lambda>(k, a). nat (k + 1022))") auto

declare expo_search.simps [simp del]

definition expo :: "real \<Rightarrow> int" where
  "expo x = expo_search 1023 \<bar>x\<bar>"

text \<open>The distance between neighbouring doubles in the binade of \<open>x\<close>: 53 bits of
  significand.\<close>

definition ulp :: "real \<Rightarrow> real" where
  "ulp x = 2 powi (expo x - 52)"

definition rnd :: "real \<Rightarrow> number" where
  "rnd x = of_int (round_even (x / ulp x)) * ulp x"

text \<open>The operators \<^verbatim>\<open>+\<close>, \<^verbatim>\<open>-\<close>, \<^verbatim>\<open>*\<close> and \<^verbatim>\<open>/\<close> on numbers; the source divides by
  non-zero numbers only.\<close>

definition fadd :: "number \<Rightarrow> number \<Rightarrow> number" where
  "fadd x y = rnd (x + y)"

definition fsub :: "number \<Rightarrow> number \<Rightarrow> number" where
  "fsub x y = rnd (x - y)"

definition fmul :: "number \<Rightarrow> number \<Rightarrow> number" where
  "fmul x y = rnd (x * y)"

definition fdiv :: "number \<Rightarrow> number \<Rightarrow> number" where
  "fdiv x y = rnd (x / y)"

text \<open>\<^verbatim>\<open>Math.round\<close>: the nearest integer, a half rounding up; the operation is exact.\<close>

definition Math_round :: "number \<Rightarrow> number" where
  "Math_round x = of_int \<lfloor>x + 1 / 2\<rfloor>"

text \<open>\<^verbatim>\<open>Math.min(...xs)\<close> and \<^verbatim>\<open>Math.max(...xs)\<close>; the source calls them on a
  non-empty array only.\<close>

fun Math_min :: "number list \<Rightarrow> number" where
  "Math_min (x # xs) = fold min xs x"

fun Math_max :: "number list \<Rightarrow> number" where
  "Math_max (x # xs) = fold max xs x"

text \<open>\<^verbatim>\<open>x || 0\<close> on a number that may be absent, and \<^verbatim>\<open>x || null\<close>.\<close>

definition or_zero :: "number option \<Rightarrow> number" where
  "or_zero x = (case x of None \<Rightarrow> 0 | Some v \<Rightarrow> v)"

definition or_null :: "number option \<Rightarrow> number option" where
  "or_null x = (case x of None \<Rightarrow> None | Some v \<Rightarrow> if v = 0 then None else Some v)"

text \<open>
  The values of a property that the source also subtracts or compares while it may be
  \<^verbatim>\<open>undefined\<close>, \<^verbatim>\<open>null\<close> or NaN: the start and end time of a lap and the time to the
  minimum heart rate.
\<close>

datatype jsval = Undefined | Null | NaN | Num number

text \<open>\<^verbatim>\<open>v != null\<close>.\<close>

fun non_null :: "jsval \<Rightarrow> bool" where
  "non_null Undefined = False"
| "non_null Null = False"
| "non_null NaN = True"
| "non_null (Num x) = True"

text \<open>The conversion of an operand of \<^verbatim>\<open>-\<close>, \<^verbatim>\<open>>=\<close> or \<^verbatim>\<open><=\<close> to a number; \<open>None\<close>
  is NaN.\<close>

fun ToNumber :: "jsval \<Rightarrow> number option" where
  "ToNumber Undefined = None"
| "ToNumber Null = Some 0"
| "ToNumber NaN = None"
| "ToNumber (Num x) = Some x"

text \<open>\<^verbatim>\<open>t >= v\<close> and \<^verbatim>\<open>t <= v\<close> for a number \<open>t\<close>: false when \<open>v\<close> converts to NaN.\<close>

definition ge_val :: "number \<Rightarrow> jsval \<Rightarrow> bool" where
  "ge_val t v = (case ToNumber v of None \<Rightarrow> False | Some x \<Rightarrow> t \<ge> x)"

definition le_val :: "number \<Rightarrow> jsval \<Rightarrow> bool" where
  "le_val t v = (case ToNumber v of None \<Rightarrow> False | Some x \<Rightarrow> t \<le> x)"

text \<open>\<^verbatim>\<open>v || 0\<close>: NaN and 0 are falsy, as the absent values are.\<close>

fun val_or_zero :: "jsval \<Rightarrow> number" where
  "val_or_zero (Num x) = x"
| "val_or_zero Undefined = 0"
| "val_or_zero Null = 0"
| "val_or_zero NaN = 0"

section \<open>Bytes, errors and \<^verbatim>\<open>DataView\<close> reads\<close>

text \<open>
  What the source throws: a \<^verbatim>\<open>RangeError\<close> for a \<^verbatim>\<open>DataView\<close> read outside the buffer,
  and its own errors \<^verbatim>\<open>Invalid ZIP file\<close>, \<^verbatim>\<open>Invalid central directory\<close>,
  \<^verbatim>\<open>Unsupported compression method: m\<close>, \<^verbatim>\<open>No .fit file found in ZIP\<close>,
  \<^verbatim>\<open>Not a valid FIT file\<close> and \<^verbatim>\<open>No definition for local type t\<close>, and a
  \<^verbatim>\<open>TypeError\<close> for reading a property of \<^verbatim>\<open>undefined\<close>. A function that can throw
  returns \<open>error + 'a\<close>, and \<open>and_then\<close> runs the next statement unless one threw.
\<close>

type_synonym byte = "8 word"

datatype error =
    RangeError
  | InvalidZip
  | InvalidCentralDirectory
  | UnsupportedCompression nat
  | NoFitFound
  | NotFit
  | NoDefinition nat
  | TypeError

definition and_then :: "error + 'a \<Rightarrow> ('a \<Rightarrow> error + 'b) \<Rightarrow> error + 'b" where
  "and_then m f = (case m of Inl e \<Rightarrow> Inl e | Inr x \<Rightarrow> f x)"

text \<open>
  \<^verbatim>\<open>getUint8\<close>, \<^verbatim>\<open>getUint16\<close> and \<^verbatim>\<open>getUint32\<close> of a \<^verbatim>\<open>DataView\<close> over the
  whole buffer: the unsigned value of \<open>w\<close> bytes at \<open>off\<close>, in the given byte order, or a
  \<^verbatim>\<open>RangeError\<close> when they are not all inside the buffer. \<^verbatim>\<open>slice\<close> clamps instead.
\<close>

definition le_nat :: "byte list \<Rightarrow> nat" where
  "le_nat bs = foldr (\<lambda>b n. unat b + 256 * n) bs 0"

definition getUint :: "nat \<Rightarrow> byte list \<Rightarrow> nat \<Rightarrow> bool \<Rightarrow> error + nat" where
  "getUint w bs off littleEndian =
     (if off + w \<le> length bs
      then Inr (le_nat (if littleEndian then take w (drop off bs) else rev (take w (drop off bs))))
      else Inl RangeError)"

abbreviation getUint8 :: "byte list \<Rightarrow> nat \<Rightarrow> error + nat" where
  "getUint8 bs off \<equiv> getUint 1 bs off True"

abbreviation getUint16 :: "byte list \<Rightarrow> nat \<Rightarrow> bool \<Rightarrow> error + nat" where
  "getUint16 \<equiv> getUint 2"

abbreviation getUint32 :: "byte list \<Rightarrow> nat \<Rightarrow> bool \<Rightarrow> error + nat" where
  "getUint32 \<equiv> getUint 4"

definition slice :: "byte list \<Rightarrow> nat \<Rightarrow> nat \<Rightarrow> byte list" where
  "slice bs a b = take (b - a) (drop a bs)"

section \<open>The archive extractor: \<^verbatim>\<open>extractFitFromZip\<close> (content.js)\<close>

text \<open>
  One iteration of the loop over the central directory reads the fields of the entry at
  \<open>offset\<close>; \<open>nextOffset\<close> is the value of \<^verbatim>\<open>offset\<close> after
  \<^verbatim>\<open>offset += 46 + nameLen + extraLen + commentLen\<close>. The name is kept as its bytes, and
  \<open>method'\<close> is the source's \<^verbatim>\<open>method\<close>.
\<close>

record cdEntry =
  method' :: nat
  compSize :: nat
  name :: "byte list"
  localOffset :: nat
  nextOffset :: nat

definition readEntry :: "byte list \<Rightarrow> nat \<Rightarrow> error + cdEntry" where
  "readEntry zipBytes offset =
     and_then (getUint32 zipBytes offset True) (\<lambda>sig.
     if sig \<noteq> 0x02014b50 then Inl InvalidCentralDirectory else
     and_then (getUint16 zipBytes (offset + 10) True) (\<lambda>m.
     and_then (getUint32 zipBytes (offset + 20) True) (\<lambda>compSize.
     and_then (getUint16 zipBytes (offset + 28) True) (\<lambda>nameLen.
     and_then (getUint16 zipBytes (offset + 30) True) (\<lambda>extraLen.
     and_then (getUint16 zipBytes (offset + 32) True) (\<lambda>commentLen.
     and_then (getUint32 zipBytes (offset + 42) True) (\<lambda>localOffset.
     Inr \<lparr>method' = m, compSize = compSize,
          name = slice zipBytes (offset + 46) (offset + 46 + nameLen),
          localOffset = localOffset,
          nextOffset = offset + 46 + nameLen + extraLen + commentLen\<rparr>)))))))"

text \<open>
  \<^verbatim>\<open>name.toLowerCase().endsWith('.fit')\<close> on the bytes of the name: the four characters
  of \<^verbatim>\<open>.fit\<close> are ASCII, only they and their capitals lower-case to a string that ends
  with one of them, and the UTF-8 decoder maps an ASCII byte to itself and no other byte
  sequence to an ASCII character, so the decoded name matches exactly when its last four
  bytes are \<^verbatim>\<open>.fit\<close> in either case.
\<close>

definition toLowerCase :: "byte \<Rightarrow> byte" where
  "toLowerCase c = (if 0x41 \<le> c \<and> c \<le> 0x5A then c + 0x20 else c)"

definition endsWith_fit :: "byte list \<Rightarrow> bool" where
  "endsWith_fit nm =
     (length nm \<ge> 4 \<and> map toLowerCase (drop (length nm - 4) nm) = [0x2E, 0x66, 0x69, 0x74])"

text \<open>
  The body of the \<^verbatim>\<open>if\<close> for a matching entry. \<open>inflateRaw\<close> stands for the platform's
  raw-deflate decompression and is a parameter.
\<close>

definition extractEntry :: "(byte list \<Rightarrow> error + byte list) \<Rightarrow> byte list \<Rightarrow> cdEntry \<Rightarrow> error + byte list" where
  "extractEntry inflateRaw zipBytes e =
     and_then (getUint16 zipBytes (localOffset e + 26) True) (\<lambda>localNameLen.
     and_then (getUint16 zipBytes (localOffset e + 28) True) (\<lambda>localExtraLen.
     let dataStart = localOffset e + 30 + localNameLen + localExtraLen;
         compressed = slice zipBytes dataStart (dataStart + compSize e)
     in if method' e = 0 then Inr compressed
        else if method' e = 8 then inflateRaw compressed
        else Inl (UnsupportedCompression (method' e))))"

text \<open>The loop \<^verbatim>\<open>for (i = 0; i < cdEntries; i++)\<close>, by the number of entries left.\<close>

fun cdLoop :: "(byte list \<Rightarrow> error + byte list) \<Rightarrow> byte list \<Rightarrow> nat \<Rightarrow> nat \<Rightarrow> error + byte list" where
  "cdLoop inflateRaw zipBytes 0 offset = Inl NoFitFound"
| "cdLoop inflateRaw zipBytes (Suc n) offset =
     and_then (readEntry zipBytes offset) (\<lambda>e.
       if endsWith_fit (name e) then extractEntry inflateRaw zipBytes e
       else cdLoop inflateRaw zipBytes n (nextOffset e))"

text \<open>
  The backward search for the end-of-central-directory signature, from
  \<^verbatim>\<open>length - 22\<close> down to \<^verbatim>\<open>max(0, length - 65557)\<close>: \<open>eocdScan zipBytes lo k\<close> tries
  \<open>lo + k - 1\<close> down to \<open>lo\<close>.
\<close>

fun eocdScan :: "byte list \<Rightarrow> nat \<Rightarrow> nat \<Rightarrow> nat option" where
  "eocdScan zipBytes lo 0 = None"
| "eocdScan zipBytes lo (Suc k) =
     (if getUint32 zipBytes (lo + k) True = Inr 0x06054b50 then Some (lo + k)
      else eocdScan zipBytes lo k)"

definition findEocd :: "byte list \<Rightarrow> nat option" where
  "findEocd zipBytes =
     (if length zipBytes < 22 then None
      else eocdScan zipBytes (length zipBytes - 65557) (length zipBytes - 22 + 1 - (length zipBytes - 65557)))"

definition extractFitFromZip :: "(byte list \<Rightarrow> error + byte list) \<Rightarrow> byte list \<Rightarrow> error + byte list" where
  "extractFitFromZip inflateRaw zipBytes =
     (case findEocd zipBytes of
        None \<Rightarrow> Inl InvalidZip
      | Some eocdOffset \<Rightarrow>
          and_then (getUint32 zipBytes (eocdOffset + 16) True) (\<lambda>cdOffset.
          and_then (getUint16 zipBytes (eocdOffset + 10) True) (\<lambda>cdEntries.
          cdLoop inflateRaw zipBytes cdEntries cdOffset)))"

text \<open>
  For the statement of the claim: the entries of the central directory in directory order,
  as far as they can be read.
\<close>

fun directory :: "byte list \<Rightarrow> nat \<Rightarrow> nat \<Rightarrow> cdEntry list" where
  "directory zipBytes offset 0 = []"
| "directory zipBytes offset (Suc n) =
     (case readEntry zipBytes offset of
        Inl _ \<Rightarrow> []
      | Inr e \<Rightarrow> e # directory zipBytes (nextOffset e) n)"

section \<open>The protocol decoder: \<^verbatim>\<open>FitParser\<close> (fit-parser.js)\<close>

subsection \<open>The static tables\<close>

definition FIT_MSG_NAMES :: "nat \<rightharpoonup> string" where
  "FIT_MSG_NAMES = map_of
     [(0, ''file_id''), (18, ''session''), (19, ''lap''), (20, ''record''),
      (21, ''event''), (23, ''device_info''), (34, ''activity'')]"

record profile =
  name :: string
  scale :: "number option"
  offset :: "number option"

definition FIT_FIELDS :: "nat \<rightharpoonup> (nat \<rightharpoonup> profile)" where
  "FIT_FIELDS = map_of
     [(19, map_of
        [(2, \<lparr>name = ''start_time'', scale = None, offset = None\<rparr>),
         (7, \<lparr>name = ''total_elapsed_time'', scale = Some 1000, offset = None\<rparr>),
         (8, \<lparr>name = ''total_timer_time'', scale = Some 1000, offset = None\<rparr>),
         (9, \<lparr>name = ''total_distance'', scale = Some 100, offset = None\<rparr>),
         (13, \<lparr>name = ''avg_speed'', scale = Some 1000, offset = None\<rparr>),
         (14, \<lparr>name = ''max_speed'', scale = Some 1000, offset = None\<rparr>),
         (15, \<lparr>name = ''avg_heart_rate'', scale = None, offset = None\<rparr>),
         (16, \<lparr>name = ''max_heart_rate'', scale = None, offset = None\<rparr>),
         (110, \<lparr>name = ''enhanced_avg_speed'', scale = Some 1000, offset = None\<rparr>),
         (111, \<lparr>name = ''enhanced_max_speed'', scale = Some 1000, offset = None\<rparr>),
         (253, \<lparr>name = ''timestamp'', scale = None, offset = None\<rparr>)]),
      (20, map_of
        [(0, \<lparr>name = ''position_lat'', scale = None, offset = None\<rparr>),
         (1, \<lparr>name = ''position_long'', scale = None, offset = None\<rparr>),
         (2, \<lparr>name = ''altitude'', scale = Some 5, offset = Some 500\<rparr>),
         (3, \<lparr>name = ''heart_rate'', scale = None, offset = None\<rparr>),
         (4, \<lparr>name = ''cadence'', scale = None, offset = None\<rparr>),
         (5, \<lparr>name = ''distance'', scale = Some 100, offset = None\<rparr>),
         (6, \<lparr>name = ''speed'', scale = Some 1000, offset = None\<rparr>),
         (73, \<lparr>name = ''enhanced_speed'', scale = Some 1000, offset = None\<rparr>),
         (78, \<lparr>name = ''enhanced_altitude'', scale = Some 5, offset = Some 500\<rparr>),
         (253, \<lparr>name = ''timestamp'', scale = None, offset = None\<rparr>)])]"

datatype reader =
  GetUint8 | GetInt8 | GetInt16 | GetUint16 | GetInt32 | GetUint32 | GetFloat32 | GetFloat64

record typeInfo =
  tsize :: nat
  read :: "reader option"
  invalid :: "number option"

definition BASE_TYPES :: "nat \<rightharpoonup> typeInfo" where
  "BASE_TYPES = map_of
     [(0x00, \<lparr>tsize = 1, read = Some GetUint8, invalid = Some 0xFF\<rparr>),
      (0x01, \<lparr>tsize = 1, read = Some GetInt8, invalid = Some 0x7F\<rparr>),
      (0x02, \<lparr>tsize = 1, read = Some GetUint8, invalid = Some 0xFF\<rparr>),
      (0x83, \<lparr>tsize = 2, read = Some GetInt16, invalid = Some 0x7FFF\<rparr>),
      (0x84, \<lparr>tsize = 2, read = Some GetUint16, invalid = Some 0xFFFF\<rparr>),
      (0x85, \<lparr>tsize = 4, read = Some GetInt32, invalid = Some 0x7FFFFFFF\<rparr>),
      (0x86, \<lparr>tsize = 4, read = Some GetUint32, invalid = Some 0xFFFFFFFF\<rparr>),
      (0x07, \<lparr>tsize = 1, read = None, invalid = Some 0\<rparr>),
      (0x88, \<lparr>tsize = 4, read = Some GetFloat32, invalid = None\<rparr>),
      (0x89, \<lparr>tsize = 8, read = Some GetFloat64, invalid = None\<rparr>),
      (0x0A, \<lparr>tsize = 1, read = Some GetUint8, invalid = Some 0\<rparr>),
      (0x8B, \<lparr>tsize = 2, read = Some GetUint16, invalid = Some 0\<rparr>),
      (0x8C, \<lparr>tsize = 4, read = Some GetUint32, invalid = Some 0\<rparr>),
      (0x0D, \<lparr>tsize = 1, read = None, invalid = None\<rparr>)]"

subsection \<open>The parser's state\<close>

text \<open>
  The layouts that a definition record declares. The source's property \<^verbatim>\<open>size\<close> is
  \<open>fsize\<close> for a field, \<open>dev_size\<close> for a developer field and \<open>tsize\<close> for a base type,
  and \<^verbatim>\<open>fields\<close> is \<open>fields'\<close>: the plain names are taken in HOL. A message is a map from
  field names to numbers.
\<close>

record fieldDef =
  num :: nat
  fsize :: nat
  baseType :: nat

record devFieldDef =
  dev_num :: nat
  dev_size :: nat
  devIdx :: nat

record msgDef =
  globalMsgNum :: nat
  littleEndian :: bool
  fields' :: "fieldDef list"
  devFields :: "devFieldDef list"

type_synonym msg = "string \<rightharpoonup> number"

record parser =
  bytes :: "byte list"
  offset :: nat
  definitions :: "nat \<rightharpoonup> msgDef"
  messages :: "string \<rightharpoonup> msg list"
  lastTimestamp :: number
  dataSize :: nat
  dataOffset :: nat

definition FitParser :: "byte list \<Rightarrow> parser" where
  "FitParser data =
     \<lparr>bytes = data, offset = 0, definitions = Map.empty, messages = Map.empty,
      lastTimestamp = 0, dataSize = 0, dataOffset = 0\<rparr>"

text \<open>
  A method of the parser takes the state and returns what it returned or threw, with the
  state as the method left it: a throw does not undo the assignments before it.
\<close>

type_synonym 'a step = "parser \<Rightarrow> (error + 'a) \<times> parser"

definition bindS :: "'a step \<Rightarrow> ('a \<Rightarrow> 'b step) \<Rightarrow> 'b step" where
  "bindS m f p = (case m p of (Inl e, p') \<Rightarrow> (Inl e, p') | (Inr x, p') \<Rightarrow> f x p')"

definition returnS :: "'a \<Rightarrow> 'a step" where
  "returnS x p = (Inr x, p)"

text \<open>\<^verbatim>\<open>this.view.getUint8(this.offset++)\<close>: the cursor moves before the read throws.\<close>

definition nextUint8 :: "nat step" where
  "nextUint8 p = (getUint8 (bytes p) (offset p), p\<lparr>offset := offset p + 1\<rparr>)"

subsection \<open>Reading values\<close>

text \<open>
  The signed reads, and the floating-point reads: \<open>fl w bs\<close> stands for the IEEE 754 value of
  the \<open>w\<close> bytes \<open>bs\<close>, most significant first; it is a parameter of the decoder.
\<close>

definition getInt :: "nat \<Rightarrow> byte list \<Rightarrow> nat \<Rightarrow> bool \<Rightarrow> error + int" where
  "getInt w bs off le =
     and_then (getUint w bs off le) (\<lambda>v.
       Inr (if v \<ge> 2 ^ (8 * w - 1) then int v - 2 ^ (8 * w) else int v))"

definition getFloat :: "(nat \<Rightarrow> byte list \<Rightarrow> number) \<Rightarrow> nat \<Rightarrow> byte list \<Rightarrow> nat \<Rightarrow> bool \<Rightarrow> error + number" where
  "getFloat fl w bs off le =
     (if off + w \<le> length bs
      then Inr (fl w (if le then rev (take w (drop off bs)) else take w (drop off bs)))
      else Inl RangeError)"

definition view_read ::
  "(nat \<Rightarrow> byte list \<Rightarrow> number) \<Rightarrow> reader \<Rightarrow> byte list \<Rightarrow> nat \<Rightarrow> bool \<Rightarrow> error + number" where
  "view_read fl rd bs off le =
     (case rd of
        GetUint8 \<Rightarrow> and_then (getUint 1 bs off le) (\<lambda>v. Inr (of_nat v))
      | GetInt8 \<Rightarrow> and_then (getInt 1 bs off le) (\<lambda>v. Inr (of_int v))
      | GetInt16 \<Rightarrow> and_then (getInt 2 bs off le) (\<lambda>v. Inr (of_int v))
      | GetUint16 \<Rightarrow> and_then (getUint 2 bs off le) (\<lambda>v. Inr (of_nat v))
      | GetInt32 \<Rightarrow> and_then (getInt 4 bs off le) (\<lambda>v. Inr (of_int v))
      | GetUint32 \<Rightarrow> and_then (getUint 4 bs off le) (\<lambda>v. Inr (of_nat v))
      | GetFloat32 \<Rightarrow> getFloat fl 4 bs off le
      | GetFloat64 \<Rightarrow> getFloat fl 8 bs off le)"

text \<open>\<^verbatim>\<open>_readField\<close>: \<open>None\<close> is the \<^verbatim>\<open>null\<close> of a skipped or invalid field.\<close>

definition readField ::
  "(nat \<Rightarrow> byte list \<Rightarrow> number) \<Rightarrow> fieldDef \<Rightarrow> bool \<Rightarrow> number option step" where
  "readField fl field le p =
     (let typeInfo = (case BASE_TYPES (baseType field) of
                        Some t \<Rightarrow> Some t
                      | None \<Rightarrow> BASE_TYPES (baseType field AND 0x1F));
          skip = (Inr None, p\<lparr>offset := offset p + fsize field\<rparr>)
      in case typeInfo of
           None \<Rightarrow> skip
         | Some t \<Rightarrow>
             (case read t of
                None \<Rightarrow> skip
              | Some rd \<Rightarrow>
                  if fsize field \<noteq> tsize t then skip
                  else (case view_read fl rd (bytes p) (offset p) le of
                          Inl e \<Rightarrow> (Inl e, p)
                        | Inr v \<Rightarrow>
                            (if invalid t \<noteq> None \<and> Some v = invalid t then Inr None
                             else Inr (Some v),
                             p\<lparr>offset := offset p + fsize field\<rparr>))))"

text \<open>The scale and offset of a profile, applied when they are truthy.\<close>

definition applyProfile :: "profile \<Rightarrow> number \<Rightarrow> number" where
  "applyProfile pr v =
     (let v1 = (case scale pr of None \<Rightarrow> v | Some s \<Rightarrow> if s \<noteq> 0 then fdiv v s else v)
      in case profile.offset pr of None \<Rightarrow> v1 | Some k \<Rightarrow> if k \<noteq> 0 then fsub v1 k else v1)"

text \<open>The loop over \<^verbatim>\<open>def.fields\<close> of \<^verbatim>\<open>_parseDataMessage\<close>, building \<^verbatim>\<open>msg\<close>.\<close>

fun readFields ::
  "(nat \<Rightarrow> byte list \<Rightarrow> number) \<Rightarrow> bool \<Rightarrow> (nat \<rightharpoonup> profile) \<Rightarrow> fieldDef list \<Rightarrow> msg \<Rightarrow> msg step" where
  "readFields fl le profileFields [] m p = (Inr m, p)"
| "readFields fl le profileFields (field # rest) m p =
     (case readField fl field le p of
        (Inl e, p') \<Rightarrow> (Inl e, p')
      | (Inr v, p') \<Rightarrow>
          readFields fl le profileFields rest
            (case (profileFields (num field), v) of
               (Some pr, Some x) \<Rightarrow> m(name pr \<mapsto> applyProfile pr x)
             | _ \<Rightarrow> m) p')"

definition parseDataMessage ::
  "(nat \<Rightarrow> byte list \<Rightarrow> number) \<Rightarrow> nat \<Rightarrow> number option \<Rightarrow> unit step" where
  "parseDataMessage fl localType compressedTs p =
     (case definitions p localType of
        None \<Rightarrow> (Inl (NoDefinition localType), p)
      | Some d \<Rightarrow>
          bindS (readFields fl (littleEndian d)
                   (case FIT_FIELDS (globalMsgNum d) of None \<Rightarrow> Map.empty | Some pf \<Rightarrow> pf)
                   (fields' d) Map.empty)
            (\<lambda>m p1.
               let p2 = p1\<lparr>offset := offset p1 + sum_list (map dev_size (devFields d))\<rparr>;
                   m1 = (if compressedTs \<noteq> None \<and> m ''timestamp'' = None
                         then m(''timestamp'' \<mapsto> the compressedTs) else m);
                   p3 = (case m1 ''timestamp'' of
                           None \<Rightarrow> p2
                         | Some t \<Rightarrow> p2\<lparr>lastTimestamp := t\<rparr>)
               in case FIT_MSG_NAMES (globalMsgNum d) of
                    None \<Rightarrow> (Inr (), p3)
                  | Some typeName \<Rightarrow>
                      (Inr (),
                       p3\<lparr>messages := (messages p3)
                           (typeName \<mapsto>
                              (case messages p3 typeName of None \<Rightarrow> [] | Some ms \<Rightarrow> ms)
                              @ [m1])\<rparr>)) p)"

text \<open>The two loops of \<^verbatim>\<open>_parseDefinition\<close>, three bytes per field.\<close>

fun readFieldDefs :: "nat \<Rightarrow> fieldDef list step" where
  "readFieldDefs 0 = returnS []"
| "readFieldDefs (Suc n) =
     bindS nextUint8 (\<lambda>fnum.
     bindS nextUint8 (\<lambda>sz.
     bindS nextUint8 (\<lambda>bt.
     bindS (readFieldDefs n) (\<lambda>rest.
     returnS (\<lparr>num = fnum, fsize = sz, baseType = bt\<rparr> # rest)))))"

fun readDevFieldDefs :: "nat \<Rightarrow> devFieldDef list step" where
  "readDevFieldDefs 0 = returnS []"
| "readDevFieldDefs (Suc n) =
     bindS nextUint8 (\<lambda>dnum.
     bindS nextUint8 (\<lambda>sz.
     bindS nextUint8 (\<lambda>idx.
     bindS (readDevFieldDefs n) (\<lambda>rest.
     returnS (\<lparr>dev_num = dnum, dev_size = sz, devIdx = idx\<rparr> # rest)))))"

definition parseDefinition :: "nat \<Rightarrow> bool \<Rightarrow> unit step" where
  "parseDefinition localType hasDev p =
     bindS nextUint8 (\<lambda>arch p1.
       case getUint16 (bytes p1) (offset p1) (arch = 0) of
         Inl e \<Rightarrow> (Inl e, p1)
       | Inr gmn \<Rightarrow>
           bindS nextUint8 (\<lambda>numFields.
           bindS (readFieldDefs numFields) (\<lambda>fs.
           bindS (if hasDev then bindS nextUint8 readDevFieldDefs else returnS []) (\<lambda>dfs q.
             (Inr (),
              q\<lparr>definitions := (definitions q)
                  (localType \<mapsto> \<lparr>globalMsgNum = gmn, littleEndian = (arch = 0),
                                 fields' = fs, devFields = dfs\<rparr>)\<rparr>))))
             (p1\<lparr>offset := offset p1 + 2\<rparr>))
       (p\<lparr>offset := offset p + 1\<rparr>)"

text \<open>
  The bitwise operators on numbers: each operand is converted by \<^verbatim>\<open>ToInt32\<close> (truncated
  towards zero and taken modulo \<open>2^32\<close>), and the result is read as a signed 32-bit integer.
\<close>

definition ToInt32 :: "number \<Rightarrow> 32 word" where
  "ToInt32 x = word_of_int (if x \<ge> 0 then \<lfloor>x\<rfloor> else \<lceil>x\<rceil>)"

definition js_and :: "number \<Rightarrow> number \<Rightarrow> number" where
  "js_and a b = of_int (sint (ToInt32 a AND ToInt32 b))"

definition js_not :: "number \<Rightarrow> number" where
  "js_not a = of_int (sint (NOT (ToInt32 a)))"

definition parseRecord :: "(nat \<Rightarrow> byte list \<Rightarrow> number) \<Rightarrow> unit step" where
  "parseRecord fl =
     bindS nextUint8 (\<lambda>header p.
       if header AND 0x80 \<noteq> 0 then
         (let localType = drop_bit 5 header AND 0x03;
              timeOffset = of_nat (header AND 0x1F);
              prev = lastTimestamp p;
              ts = fadd (js_and prev 0xFFFFFFE0) timeOffset;
              ts' = (if timeOffset < js_and prev 0x1F then fadd ts 0x20 else ts)
          in parseDataMessage fl localType (Some ts') (p\<lparr>lastTimestamp := ts'\<rparr>))
       else if header AND 0x40 \<noteq> 0 then
         parseDefinition (header AND 0x0F) (header AND 0x20 \<noteq> 0) p
       else
         parseDataMessage fl (header AND 0x0F) None p)"

text \<open>
  \<^verbatim>\<open>_parseHeader\<close>. A byte of the signature outside the buffer reads as
  \<^verbatim>\<open>undefined\<close>, which is not a character of \<^verbatim>\<open>.FIT\<close>; \<open>slice\<close> is then too short.
\<close>

definition parseHeader :: "unit step" where
  "parseHeader p =
     (case getUint8 (bytes p) 0 of
        Inl e \<Rightarrow> (Inl e, p)
      | Inr headerSize \<Rightarrow>
          (case getUint32 (bytes p) 4 True of
             Inl e \<Rightarrow> (Inl e, p)
           | Inr ds \<Rightarrow>
               if slice (bytes p) 8 12 \<noteq> [0x2E, 0x46, 0x49, 0x54]
               then (Inl NotFit, p\<lparr>dataSize := ds\<rparr>)
               else (Inr (), p\<lparr>dataSize := ds, offset := headerSize, dataOffset := headerSize\<rparr>)))"

subsection \<open>Well-formed protocol streams\<close>

text \<open>
  The framing of the protocol, for the statement about the cursor. A record is a definition
  record (control byte, reserved byte, architecture, the two bytes of the message number, the
  fields as triples of bytes and, when bit 5 of the control byte is set, the developer fields)
  or a data record (control byte and payload); \<open>encodeRecord\<close> gives its bytes.
\<close>

datatype fitRecord =
    DefinitionRecord byte byte byte byte byte "(byte \<times> byte \<times> byte) list" "(byte \<times> byte \<times> byte) list"
  | DataRecord byte "byte list"

definition encodeFields :: "(byte \<times> byte \<times> byte) list \<Rightarrow> byte list" where
  "encodeFields fs = concat (map (\<lambda>(a, b, c). [a, b, c]) fs)"

fun encodeRecord :: "fitRecord \<Rightarrow> byte list" where
  "encodeRecord (DefinitionRecord h reserved arch g0 g1 fs ds) =
     [h, reserved, arch, g0, g1, of_nat (length fs)] @ encodeFields fs @
     (if unat h AND 0x20 \<noteq> 0 then of_nat (length ds) # encodeFields ds else [])"
| "encodeRecord (DataRecord h payload) = h # payload"

text \<open>
  A sequence of records is well formed when every definition record has a definition
  control byte and fewer than 256 fields of each kind, and the payload of every data record
  has the length that the latest definition of its local type declares: the sizes of its
  fields and developer fields, whatever their types. \<open>S\<close> maps a local type to that length.
\<close>

definition fieldSizes :: "(byte \<times> byte \<times> byte) list \<Rightarrow> nat" where
  "fieldSizes fs = sum_list (map (\<lambda>(a, b, c). unat b) fs)"

definition localTypeOf :: "byte \<Rightarrow> nat" where
  "localTypeOf h =
     (if unat h AND 0x80 \<noteq> 0 then drop_bit 5 (unat h) AND 0x03 else unat h AND 0x0F)"

fun wf_records :: "(nat \<rightharpoonup> nat) \<Rightarrow> fitRecord list \<Rightarrow> bool" where
  "wf_records S [] = True"
| "wf_records S (DefinitionRecord h reserved arch g0 g1 fs ds # rs) =
     (unat h AND 0x80 = 0 \<and> unat h AND 0x40 \<noteq> 0 \<and>
      length fs < 256 \<and> length ds < 256 \<and> (unat h AND 0x20 = 0 \<longrightarrow> ds = []) \<and>
      wf_records (S(unat h AND 0x0F \<mapsto> fieldSizes fs + fieldSizes ds)) rs)"
| "wf_records S (DataRecord h payload # rs) =
     ((unat h AND 0x80 \<noteq> 0 \<or> unat h AND 0x40 = 0) \<and>
      S (localTypeOf h) = Some (length payload) \<and>
      wf_records S rs)"

text \<open>
  A stream is well formed when its header is at least 12 bytes long and carries the
  signature, and the payload that the header declares is the encoding of a well-formed
  sequence of records. Bytes after the payload (a checksum) are allowed.
\<close>

definition wf_stream :: "byte list \<Rightarrow> fitRecord list \<Rightarrow> bool" where
  "wf_stream bs rs =
     (let headerLength = unat (bs ! 0);
          payloadLength = le_nat (take 4 (drop 4 bs))
      in 12 \<le> headerLength \<and> headerLength + payloadLength \<le> length bs \<and>
         take 4 (drop 8 bs) = [0x2E, 0x46, 0x49, 0x54] \<and>
         take payloadLength (drop headerLength bs) = concat (map encodeRecord rs) \<and>
         wf_records Map.empty rs)"

text \<open>The definitions a decoded definition record stores, and the widths of the readers.\<close>

definition mkField :: "byte \<times> byte \<times> byte \<Rightarrow> fieldDef" where
  "mkField f = (case f of (a, b, c) \<Rightarrow> \<lparr>num = unat a, fsize = unat b, baseType = unat c\<rparr>)"

definition mkDevField :: "byte \<times> byte \<times> byte \<Rightarrow> devFieldDef" where
  "mkDevField f = (case f of (a, b, c) \<Rightarrow> \<lparr>dev_num = unat a, dev_size = unat b, devIdx = unat c\<rparr>)"

fun readerWidth :: "reader \<Rightarrow> nat" where
  "readerWidth GetUint8 = 1"
| "readerWidth GetInt8 = 1"
| "readerWidth GetInt16 = 2"
| "readerWidth GetUint16 = 2"
| "readerWidth GetInt32 = 4"
| "readerWidth GetUint32 = 4"
| "readerWidth GetFloat32 = 4"
| "readerWidth GetFloat64 = 8"

definition recordSize :: "msgDef \<Rightarrow> nat" where
  "recordSize d = sum_list (map fsize (fields' d)) + sum_list (map dev_size (devFields d))"

section \<open>The canonical activity: laps and per-second records (content.js)\<close>

text \<open>A lap row of the JSON splits document, with the properties the adapter reads.\<close>

record lapDTO =
  startTimeGMT :: "string option"
  startTimeInSeconds :: jsval
  duration :: "number option"
  elapsedDuration :: "number option"
  distance :: "number option"
  averageHR :: "number option"
  averageHeartRate :: "number option"
  maxHR :: "number option"
  maxHeartRate :: "number option"
  averageSpeed :: "number option"

record lap =
  start_time :: jsval
  timestamp :: jsval
  total_timer_time :: "number option"
  total_distance :: "number option"
  avg_heart_rate :: "number option"
  max_heart_rate :: "number option"
  avg_speed :: "number option"

record sample =
  timestamp :: "number option"
  heart_rate :: "number option"
  distance :: "number option"
  speed :: "number option"

record lapstat =
  lapNumber :: nat
  totalDistance :: number
  avgPace :: "number option"
  minHR :: "number option"
  maxHR :: "number option"
  avgHR :: "number option"
  timeToMinHR :: jsval
  elapsedTime :: number

text \<open>An element of \<^verbatim>\<open>lapBounds\<close>; \<open>end'\<close> is the source's \<^verbatim>\<open>end\<close>.\<close>

record bound =
  start :: number
  end' :: number

section \<open>The JSON adapter: the laps of \<^verbatim>\<open>parseJsonActivity\<close> (content.js)\<close>

text \<open>\<^verbatim>\<open>a || b || 0\<close> and \<^verbatim>\<open>a || b || null\<close> on numbers that may be absent.\<close>

definition or_or_zero :: "number option \<Rightarrow> number option \<Rightarrow> number" where
  "or_or_zero a b = (case or_null a of Some v \<Rightarrow> v | None \<Rightarrow> or_zero b)"

definition or_or_null :: "number option \<Rightarrow> number option \<Rightarrow> number option" where
  "or_or_null a b = (case or_null a of Some v \<Rightarrow> Some v | None \<Rightarrow> or_null b)"

text \<open>
  The object pushed for one lap row. \<open>getTime s\<close> stands for the platform's
  \<^verbatim>\<open>new Date(s).getTime()\<close>, in milliseconds; it is a parameter, and \<open>None\<close> is the NaN
  of a string that is not a date, which the division and the sum hand on.
\<close>

definition jsonLap :: "(string \<Rightarrow> number option) \<Rightarrow> lapDTO \<Rightarrow> lap" where
  "jsonLap getTime l =
     \<lparr>start_time =
        (case startTimeGMT l of
           Some g \<Rightarrow> (case getTime g of None \<Rightarrow> NaN | Some ms \<Rightarrow> Num (fdiv ms 1000))
         | None \<Rightarrow> startTimeInSeconds l),
      timestamp =
        (case startTimeGMT l of
           Some g \<Rightarrow>
             (case getTime g of
                None \<Rightarrow> NaN
              | Some ms \<Rightarrow>
                  Num (fadd (fdiv ms 1000) (or_or_zero (duration l) (elapsedDuration l))))
         | None \<Rightarrow>
             Num (fadd (val_or_zero (startTimeInSeconds l))
                    (or_or_zero (duration l) (elapsedDuration l)))),
      total_timer_time = Some (or_or_zero (duration l) (elapsedDuration l)),
      total_distance = Some (or_zero (lapDTO.distance l)),
      avg_heart_rate = or_or_null (averageHR l) (averageHeartRate l),
      max_heart_rate = or_or_null (lapDTO.maxHR l) (maxHeartRate l),
      avg_speed = or_null (averageSpeed l)\<rparr>"

definition parseJsonActivity_laps :: "(string \<Rightarrow> number option) \<Rightarrow> lapDTO list \<Rightarrow> lap list" where
  "parseJsonActivity_laps getTime lapSplits = map (jsonLap getTime) lapSplits"

section \<open>Lap statistics: \<^verbatim>\<open>computeLapStats\<close> (content.js)\<close>

text \<open>The cumulative distance boundaries: \<^verbatim>\<open>laps.map\<close> over the running sum
  \<^verbatim>\<open>cumDist\<close>, which \<^verbatim>\<open>+=\<close> rounds at every lap.\<close>

fun lapBounds :: "number \<Rightarrow> lap list \<Rightarrow> bound list" where
  "lapBounds cumDist [] = []"
| "lapBounds cumDist (l # ls) =
     (let cumDist' = fadd cumDist (or_zero (total_distance l))
      in \<lparr>start = cumDist, end' = cumDist'\<rparr> # lapBounds cumDist' ls)"

text \<open>
  The records that have a distance, in ascending distance. \<^verbatim>\<open>Array.prototype.sort\<close> is
  stable, as \<open>sort_key\<close> is: records of equal distance keep their input order. The
  comparator \<^verbatim>\<open>a.distance - b.distance\<close> has the sign of the exact difference, since the
  difference of two different doubles does not round to zero.
\<close>

definition sortedRecords :: "sample list \<Rightarrow> sample list" where
  "sortedRecords records =
     sort_key (\<lambda>r. the (distance r)) (filter (\<lambda>r. distance r \<noteq> None) records)"

definition in_window :: "bound \<Rightarrow> sample \<Rightarrow> bool" where
  "in_window b r =
     (case distance r of None \<Rightarrow> False
      | Some d \<Rightarrow> d \<ge> fsub (start b) 10 \<and> d \<le> fadd (end' b) 10)"

definition distanceMatched :: "bound \<Rightarrow> sample list \<Rightarrow> sample list" where
  "distanceMatched b records = filter (in_window b) (sortedRecords records)"

definition in_time :: "lap \<Rightarrow> sample \<Rightarrow> bool" where
  "in_time l r =
     (case sample.timestamp r of None \<Rightarrow> False
      | Some t \<Rightarrow> ge_val t (start_time l) \<and> le_val t (lap.timestamp l))"

text \<open>The records of a lap: those matched by distance, or, when there are none and the lap
  has both timestamps, those matched by timestamp among all the records.\<close>

definition lapRecords :: "lap \<Rightarrow> bound \<Rightarrow> sample list \<Rightarrow> sample list" where
  "lapRecords l b records =
     (let matched = distanceMatched b records
      in if length matched = 0 \<and> non_null (start_time l) \<and> non_null (lap.timestamp l)
         then filter (in_time l) records
         else matched)"

definition hrRecords :: "sample list \<Rightarrow> sample list" where
  "hrRecords rs =
     filter (\<lambda>r. case heart_rate r of None \<Rightarrow> False | Some h \<Rightarrow> h > 0) rs"

definition hrValues :: "sample list \<Rightarrow> number list" where
  "hrValues rs = map (\<lambda>r. the (heart_rate r)) (hrRecords rs)"

text \<open>
  \<^verbatim>\<open>lap.total_timer_time || (endTime - startTime) || 0\<close>. The difference is NaN, which is
  falsy, when an operand is \<^verbatim>\<open>undefined\<close> or NaN; a \<^verbatim>\<open>null\<close> operand counts as 0.
\<close>

definition elapsed :: "lap \<Rightarrow> number" where
  "elapsed l =
     (let diff = (case (ToNumber (lap.timestamp l), ToNumber (start_time l)) of
                    (Some e, Some s) \<Rightarrow> fsub e s | _ \<Rightarrow> 0)
      in case total_timer_time l of
           None \<Rightarrow> diff
         | Some t \<Rightarrow> if t \<noteq> 0 then t else diff)"

text \<open>
  The body of the second \<^verbatim>\<open>laps.map\<close>, for the lap \<open>l\<close> at \<open>index\<close> with its bound \<open>b\<close>.
  The sum of the heart rates is the \<^verbatim>\<open>reduce\<close> from 0, rounded at every step. The time to
  the minimum heart rate is \<^verbatim>\<open>null\<close> when the record has no timestamp or the lap's start
  time is \<^verbatim>\<open>null\<close> or \<^verbatim>\<open>undefined\<close>, and NaN when the start time is NaN.
\<close>

definition lapStat :: "lap \<Rightarrow> nat \<Rightarrow> bound \<Rightarrow> sample list \<Rightarrow> lapstat" where
  "lapStat l index b records =
     (let lrs = lapRecords l b records;
          hrs = hrRecords lrs;
          vals = hrValues lrs;
          (minHR', maxHR', avgHR', timeToMinHR') =
            (if length vals > 0 then
               (let mn = Math_min vals
                in (Some mn, Some (Math_max vals),
                    Some (Math_round (fdiv (foldl fadd 0 vals) (of_nat (length vals)))),
                    (case find (\<lambda>r. heart_rate r = Some mn) hrs of
                       None \<Rightarrow> Null
                     | Some m \<Rightarrow>
                         if sample.timestamp m \<noteq> None \<and> non_null (start_time l)
                         then (case ToNumber (start_time l) of
                                 None \<Rightarrow> NaN
                               | Some s \<Rightarrow> Num (Math_round (fsub (the (sample.timestamp m)) s)))
                         else Null)))
             else (None, or_null (max_heart_rate l), or_null (avg_heart_rate l), Null));
          totalDist = or_zero (total_distance l);
          elapsedT = elapsed l;
          pace = (if totalDist > 0 \<and> elapsedT > 0
                  then Some (fmul (fdiv elapsedT totalDist) 1000) else None)
      in \<lparr>lapNumber = index + 1, totalDistance = totalDist, avgPace = pace,
           minHR = minHR', maxHR = maxHR', avgHR = avgHR',
           timeToMinHR = timeToMinHR', elapsedTime = elapsedT\<rparr>)"

text \<open>
  \<^verbatim>\<open>xs[i]\<close> is \<^verbatim>\<open>undefined\<close> outside the array, and reading a property of
  \<^verbatim>\<open>undefined\<close>, as \<^verbatim>\<open>bound.start\<close> does, throws a \<^verbatim>\<open>TypeError\<close>; a callback that
  throws ends \<^verbatim>\<open>map\<close> with that error.
\<close>

definition index_opt :: "'a list \<Rightarrow> nat \<Rightarrow> 'a option" where
  "index_opt xs i = (if i < length xs then Some (xs ! i) else None)"

fun mapE :: "('a \<Rightarrow> error + 'b) \<Rightarrow> 'a list \<Rightarrow> error + 'b list" where
  "mapE f [] = Inr []"
| "mapE f (x # xs) =
     and_then (f x) (\<lambda>v. and_then (mapE f xs) (\<lambda>vs. Inr (v # vs)))"

definition computeLapStats :: "lap list \<Rightarrow> sample list \<Rightarrow> error + lapstat list" where
  "computeLapStats laps records =
     (let bounds = lapBounds 0 laps
      in mapE (\<lambda>(index, l).
                 case index_opt bounds index of
                   None \<Rightarrow> Inl TypeError
                 | Some b \<Rightarrow> Inr (lapStat l index b records))
           (enumerate 0 laps))"

subsection \<open>The claimed rule for the time to the minimum heart rate\<close>

text \<open>
  The specification's wording, for comparison with \<open>lapStat\<close>: the first record in the
  original order of the input records that is among the lap's matched records and whose
  heart rate is the lap's minimum.
\<close>

definition timeToMinHR_inputOrder :: "lap \<Rightarrow> bound \<Rightarrow> sample list \<Rightarrow> jsval" where
  "timeToMinHR_inputOrder l b records =
     (let matched = lapRecords l b records;
          mn = Math_min (hrValues matched)
      in case find (\<lambda>r. r \<in> set matched \<and> heart_rate r = Some mn) records of
           None \<Rightarrow> Null
         | Some m \<Rightarrow>
             if sample.timestamp m \<noteq> None \<and> non_null (start_time l)
             then (case ToNumber (start_time l) of
                     None \<Rightarrow> NaN
                   | Some s \<Rightarrow> Num (Math_round (fsub (the (sample.timestamp m)) s)))
             else Null)"

subsection \<open>Example activities\<close>

definition mk_lap :: "number \<Rightarrow> number \<Rightarrow> number \<Rightarrow> lap" where
  "mk_lap t0 t1 d =
     \<lparr>start_time = Num t0, timestamp = Num t1, total_timer_time = None,
      total_distance = Some d, avg_heart_rate = None, max_heart_rate = None,
      avg_speed = None\<rparr>"

definition mk_sample :: "number \<Rightarrow> number \<Rightarrow> number \<Rightarrow> sample" where
  "mk_sample t hr d =
     \<lparr>timestamp = Some t, heart_rate = Some hr, distance = Some d, speed = None\<rparr>"

text \<open>A lap of which only the summary is known, and a record that has only a distance.\<close>

definition summary_lap :: "number \<Rightarrow> lap" where
  "summary_lap d =
     \<lparr>start_time = Undefined, timestamp = Undefined, total_timer_time = None,
      total_distance = Some d, avg_heart_rate = Some 140, max_heart_rate = Some 160,
      avg_speed = None\<rparr>"

definition at_distance :: "number \<Rightarrow> sample" where
  "at_distance d = \<lparr>timestamp = None, heart_rate = None, distance = Some d, speed = None\<rparr>"

definition dto0 :: lapDTO where
  "dto0 = \<lparr>startTimeGMT = None, startTimeInSeconds = Undefined, duration = Some 60,
     elapsedDuration = None, distance = Some 400, averageHR = None, averageHeartRate = None,
     maxHR = None, maxHeartRate = None, averageSpeed = None\<rparr>"

text \<open>
  An archive of two entries: \<^verbatim>\<open>A.FIT\<close>, stored, with the payload \<open>[1, 2, 3]\<close>, and
  \<^verbatim>\<open>b.fit\<close> with the compression method 99.
\<close>

definition zip2 :: "byte list" where
  "zip2 =
    [0x50, 0x4B, 0x03, 0x04, 20, 0, 0, 0, 0, 0, 0, 0, 0, 0, 0, 0, 0, 0,
     3, 0, 0, 0, 3, 0, 0, 0, 5, 0, 0, 0,
     0x41, 0x2E, 0x46, 0x49, 0x54,
     1, 2, 3,
     0x50, 0x4B, 0x03, 0x04, 20, 0, 0, 0, 99, 0, 0, 0, 0, 0, 0, 0, 0, 0,
     1, 0, 0, 0, 1, 0, 0, 0, 5, 0, 0, 0,
     0x62, 0x2E, 0x66, 0x69, 0x74,
     9,
     0x50, 0x4B, 0x01, 0x02, 20, 0, 20, 0, 0, 0, 0, 0, 0, 0, 0, 0, 0, 0, 0, 0,
     3, 0, 0, 0, 3, 0, 0, 0, 5, 0, 0, 0, 0, 0, 0, 0, 0, 0, 0, 0, 0, 0,
     0, 0, 0, 0,
     0x41, 0x2E, 0x46, 0x49, 0x54,
     0x50, 0x4B, 0x01, 0x02, 20, 0, 20, 0, 0, 0, 99, 0, 0, 0, 0, 0, 0, 0, 0, 0,
     1, 0, 0, 0, 1, 0, 0, 0, 5, 0, 0, 0, 0, 0, 0, 0, 0, 0, 0, 0, 0, 0,
     38, 0, 0, 0,
     0x62, 0x2E, 0x66, 0x69, 0x74,
     0x50, 0x4B, 0x05, 0x06, 0, 0, 0, 0, 2, 0, 2, 0, 102, 0, 0, 0, 74, 0, 0, 0, 0, 0]"

text \<open>
  A protocol stream: a header of 12 bytes that declares 12 bytes of records, the definition
  of local type 0 as a \<^verbatim>\<open>record\<close> message with a one-byte heart rate, a data record of
  local type 0 with the heart rate 150, and a data record of local type 1, which has no
  definition.
\<close>

definition stream3 :: "byte list" where
  "stream3 =
     [12, 0x10, 0, 0, 12, 0, 0, 0, 0x2E, 0x46, 0x49, 0x54,
      0x40, 0, 0, 20, 0, 1, 3, 1, 2,
      0x00, 150,
      0x01]"

definition hrDef :: msgDef where
  "hrDef = \<lparr>globalMsgNum = 20, littleEndian = True,
            fields' = [\<lparr>num = 3, fsize = 1, baseType = 2\<rparr>], devFields = []\<rparr>"

text \<open>
  A well-formed stream: a definition of local type 0 with a one-byte heart rate, a string
  field of four bytes with an unknown field number, a four-byte distance and one developer
  field of two bytes; a plain and a compressed-timestamp data record of that type; and two
  bytes of checksum after the payload.
\<close>

definition records4 :: "fitRecord list" where
  "records4 =
     [DefinitionRecord 0x60 0 0 20 0 [(3, 1, 2), (99, 4, 7), (5, 4, 0x86)] [(0, 2, 0)],
      DataRecord 0x00 [150, 65, 66, 67, 0, 0x10, 0x27, 0, 0, 7, 7],
      DataRecord 0x85 [151, 65, 66, 67, 0, 0x20, 0x27, 0, 0, 7, 7]]"

definition stream4 :: "byte list" where
  "stream4 =
     [12, 0x10, 0, 0, 43, 0, 0, 0, 0x2E, 0x46, 0x49, 0x54,
      0x60, 0, 0, 20, 0, 3, 3, 1, 2, 99, 4, 7, 5, 4, 0x86, 1, 0, 2, 0,
      0x00, 150, 65, 66, 67, 0, 0x10, 0x27, 0, 0, 7, 7,
      0x85, 151, 65, 66, 67, 0, 0x20, 0x27, 0, 0, 7, 7,
      0xAB, 0xCD]"

text \<open>A decoder of floating-point fields for the examples.\<close>

definition fl0 :: "nat \<Rightarrow> byte list \<Rightarrow> number" where
  "fl0 w bs = 0"

text \<open>
  Two streams with a compressed-timestamp record of offset 3. In the first, the full
  timestamp 1000 before it is in an \<^verbatim>\<open>event\<close> message (global number 21); in the second,
  the full timestamp 4000000000 is in a \<^verbatim>\<open>record\<close> message.
\<close>

definition tsDef :: "nat \<Rightarrow> msgDef" where
  "tsDef g = \<lparr>globalMsgNum = g, littleEndian = True,
              fields' = [\<lparr>num = 253, fsize = 4, baseType = 0x86\<rparr>], devFields = []\<rparr>"

definition stream5 :: "byte list" where
  "stream5 =
     [12, 0x10, 0, 0, 25, 0, 0, 0, 0x2E, 0x46, 0x49, 0x54,
      0x40, 0, 0, 21, 0, 1, 253, 4, 0x86,
      0x00, 0xE8, 0x03, 0, 0,
      0x41, 0, 0, 20, 0, 1, 3, 1, 2,
      0xA3, 150]"

definition stream6 :: "byte list" where
  "stream6 =
     [12, 0x10, 0, 0, 25, 0, 0, 0, 0x2E, 0x46, 0x49, 0x54,
      0x40, 0, 0, 20, 0, 1, 253, 4, 0x86,
      0x00, 0x00, 0x28, 0x6B, 0xEE,
      0x41, 0, 0, 20, 0, 1, 3, 1, 2,
      0xA3, 150]"

section \<open>The decode pass: \<^verbatim>\<open>parse\<close> (fit-parser.js)\<close>

text \<open>What the reading methods leave alone: the buffer and the messages; the cursor never
  moves back.\<close>

definition frame :: "parser \<Rightarrow> parser \<Rightarrow> bool" where
  "frame p p' \<longleftrightarrow> bytes p' = bytes p \<and> offset p \<le> offset p' \<and> messages p' = messages p"

lemma frame_refl [simp]: "frame p p"
  by (simp add: frame_def)

lemma frame_trans: "frame p q \<Longrightarrow> frame q r \<Longrightarrow> frame p r"
  by (simp add: frame_def)

lemma frame_offset [simp]: "frame p (p\<lparr>offset := offset p + k\<rparr>)"
  by (simp add: frame_def)

lemma bindS_frame:
  assumes "bindS m f p = (r, p')"
      and "\<And>x q. m p = (x, q) \<Longrightarrow> frame p q"
      and "\<And>x q y q'. m p = (Inr x, q) \<Longrightarrow> f x q = (y, q') \<Longrightarrow> frame q q'"
  shows "frame p p'"
proof (cases "m p")
  case (Pair x q)
  show ?thesis
  proof (cases x)
    case (Inl e)
    with Pair assms(1) have "p' = q" by (simp add: bindS_def)
    with assms(2) [OF Pair] show ?thesis by simp
  next
    case (Inr v)
    with Pair assms(1) have "f v q = (r, p')" by (simp add: bindS_def)
    from assms(3) [OF Pair [unfolded Inr] this] assms(2) [OF Pair] show ?thesis
      by (rule frame_trans [rotated])
  qed
qed

lemma nextUint8_frame: "nextUint8 p = (r, p') \<Longrightarrow> frame p p'"
  by (auto simp: nextUint8_def frame_def)

lemma readField_frame: "readField fl field le p = (r, p') \<Longrightarrow> frame p p'"
  by (auto simp: readField_def Let_def frame_def split: option.splits if_splits sum.splits)

lemma readFields_frame: "readFields fl le pf fs m p = (r, p') \<Longrightarrow> frame p p'"
proof (induction fs arbitrary: m p)
  case Nil
  then show ?case by simp
next
  case (Cons f fs)
  obtain x q where q: "readField fl f le p = (x, q)" by (cases "readField fl f le p")
  from readField_frame [OF q] have fq: "frame p q" .
  show ?case
  proof (cases x)
    case (Inl e)
    with q Cons.prems have "p' = q" by simp
    with fq show ?thesis by simp
  next
    case (Inr v)
    with q Cons.prems obtain m' where "readFields fl le pf fs m' q = (r, p')" by simp
    from Cons.IH [OF this] fq show ?thesis by (rule frame_trans [rotated])
  qed
qed

lemma returnS_frame: "returnS x p = (r, p') \<Longrightarrow> frame p p'"
  by (auto simp: returnS_def)

lemma readFieldDefs_frame: "readFieldDefs n p = (r, p') \<Longrightarrow> frame p p'"
proof (induction n arbitrary: p r p')
  case 0
  then show ?case by (simp add: returnS_frame)
next
  case (Suc n)
  from Suc.prems show ?case
    unfolding readFieldDefs.simps
    by (elim bindS_frame nextUint8_frame Suc.IH returnS_frame)
qed

lemma readDevFieldDefs_frame: "readDevFieldDefs n p = (r, p') \<Longrightarrow> frame p p'"
proof (induction n arbitrary: p r p')
  case 0
  then show ?case by (simp add: returnS_frame)
next
  case (Suc n)
  from Suc.prems show ?case
    unfolding readDevFieldDefs.simps
    by (elim bindS_frame nextUint8_frame Suc.IH returnS_frame)
qed

lemma devs_frame:
  "(if hasDev then bindS nextUint8 readDevFieldDefs else returnS []) p = (r, p') \<Longrightarrow> frame p p'"
  by (cases hasDev) (auto elim: bindS_frame nextUint8_frame readDevFieldDefs_frame returnS_frame)

lemma store_definition_frame:
  "(Inr (), q\<lparr>definitions := d\<rparr>) = (y, q') \<Longrightarrow> frame q q'"
  by (auto simp: frame_def)

lemma parseDefinition_frame: "parseDefinition localType hasDev p = (r, p') \<Longrightarrow> frame p p'"
proof -
  assume a: "parseDefinition localType hasDev p = (r, p')"
  have f0: "frame p (p\<lparr>offset := offset p + 1\<rparr>)" by (simp add: frame_def)
  have "frame (p\<lparr>offset := offset p + 1\<rparr>) p'"
    using a unfolding parseDefinition_def
  proof (elim bindS_frame nextUint8_frame, goal_cases)
    case (1 arch p1 y q')
    show ?case
    proof (cases "getUint16 (bytes p1) (offset p1) (arch = 0)")
      case (Inl e)
      with 1 show ?thesis by simp
    next
      case (Inr gmn)
      have f1: "frame p1 (p1\<lparr>offset := offset p1 + 2\<rparr>)" by (simp add: frame_def)
      from 1 Inr have "bindS nextUint8 (\<lambda>numFields.
           bindS (readFieldDefs numFields) (\<lambda>fs.
           bindS (if hasDev then bindS nextUint8 readDevFieldDefs else returnS []) (\<lambda>dfs q.
             (Inr (),
              q\<lparr>definitions := (definitions q)
                  (localType \<mapsto> \<lparr>globalMsgNum = gmn, littleEndian = (arch = 0),
                                 fields' = fs, devFields = dfs\<rparr>)\<rparr>))))
             (p1\<lparr>offset := offset p1 + 2\<rparr>) = (y, q')" by simp
      then have "frame (p1\<lparr>offset := offset p1 + 2\<rparr>) q'"
        by (elim bindS_frame nextUint8_frame readFieldDefs_frame devs_frame store_definition_frame)
      with f1 show ?thesis by (rule frame_trans)
    qed
  qed
  with f0 show ?thesis by (rule frame_trans)
qed

lemma parseDataMessage_fail:
  assumes "parseDataMessage fl localType cts p = (Inl e, p')"
  shows "frame p p'"
proof (cases "definitions p localType")
  case None
  with assms show ?thesis by (simp add: parseDataMessage_def)
next
  case (Some d)
  let ?pf = "case FIT_FIELDS (globalMsgNum d) of None \<Rightarrow> Map.empty | Some pf \<Rightarrow> pf"
  obtain x q where q: "readFields fl (littleEndian d) ?pf (fields' d) Map.empty p = (x, q)"
    by (cases "readFields fl (littleEndian d) ?pf (fields' d) Map.empty p")
  show ?thesis
  proof (cases x)
    case (Inl err)
    with assms Some q have "p' = q" by (simp add: parseDataMessage_def bindS_def)
    with readFields_frame [OF q] show ?thesis by simp
  next
    case (Inr m)
    with assms Some q show ?thesis
      by (simp add: parseDataMessage_def bindS_def Let_def split: option.splits)
  qed
qed

lemma parseDataMessage_ok:
  assumes "parseDataMessage fl localType cts p = (Inr u, p')"
  shows "bytes p' = bytes p \<and> offset p \<le> offset p'"
proof (cases "definitions p localType")
  case None
  with assms show ?thesis by (simp add: parseDataMessage_def)
next
  case (Some d)
  let ?pf = "case FIT_FIELDS (globalMsgNum d) of None \<Rightarrow> Map.empty | Some pf \<Rightarrow> pf"
  obtain x q where q: "readFields fl (littleEndian d) ?pf (fields' d) Map.empty p = (x, q)"
    by (cases "readFields fl (littleEndian d) ?pf (fields' d) Map.empty p")
  from readFields_frame [OF q] have f: "bytes q = bytes p" "offset p \<le> offset q"
    by (simp_all add: frame_def)
  show ?thesis
  proof (cases x)
    case (Inl err)
    with assms Some q show ?thesis by (simp add: parseDataMessage_def bindS_def)
  next
    case (Inr m)
    with assms Some q f show ?thesis
      by (auto simp: parseDataMessage_def bindS_def Let_def split: option.splits)
  qed
qed

lemma parseRecord_fail:
  assumes "parseRecord fl p = (Inl e, p')"
  shows "messages p' = messages p \<and> bytes p' = bytes p"
proof -
  let ?q = "p\<lparr>offset := offset p + 1\<rparr>"
  show ?thesis
  proof (cases "getUint8 (bytes p) (offset p)")
    case (Inl err)
    with assms show ?thesis by (auto simp: parseRecord_def bindS_def nextUint8_def)
  next
    case (Inr header)
    show ?thesis
    proof (cases "header AND 0x80 \<noteq> 0")
      case True
      with assms Inr obtain ts where "parseDataMessage fl (drop_bit 5 header AND 0x03) (Some ts)
          (?q\<lparr>lastTimestamp := ts\<rparr>) = (Inl e, p')"
        by (simp add: parseRecord_def bindS_def nextUint8_def Let_def)
      from parseDataMessage_fail [OF this] show ?thesis by (simp add: frame_def)
    next
      case False
      show ?thesis
      proof (cases "header AND 0x40 \<noteq> 0")
        case True
        with assms Inr False have "parseDefinition (header AND 0x0F) (header AND 0x20 \<noteq> 0) ?q = (Inl e, p')"
          by (simp add: parseRecord_def bindS_def nextUint8_def)
        from parseDefinition_frame [OF this] show ?thesis by (simp add: frame_def)
      next
        case c: False
        with assms Inr False have "parseDataMessage fl (header AND 0x0F) None ?q = (Inl e, p')"
          by (simp add: parseRecord_def bindS_def nextUint8_def)
        from parseDataMessage_fail [OF this] show ?thesis by (simp add: frame_def)
      qed
    qed
  qed
qed

lemma parseRecord_ok:
  assumes "parseRecord fl p = (Inr u, p')"
  shows "offset p < offset p' \<and> bytes p' = bytes p"
proof -
  let ?q = "p\<lparr>offset := offset p + 1\<rparr>"
  show ?thesis
  proof (cases "getUint8 (bytes p) (offset p)")
    case (Inl err)
    with assms show ?thesis by (auto simp: parseRecord_def bindS_def nextUint8_def)
  next
    case (Inr header)
    show ?thesis
    proof (cases "header AND 0x80 \<noteq> 0")
      case True
      with assms Inr obtain ts where "parseDataMessage fl (drop_bit 5 header AND 0x03) (Some ts)
          (?q\<lparr>lastTimestamp := ts\<rparr>) = (Inr u, p')"
        by (simp add: parseRecord_def bindS_def nextUint8_def Let_def)
      from parseDataMessage_ok [OF this] show ?thesis by simp
    next
      case False
      show ?thesis
      proof (cases "header AND 0x40 \<noteq> 0")
        case True
        with assms Inr False have "parseDefinition (header AND 0x0F) (header AND 0x20 \<noteq> 0) ?q = (Inr u, p')"
          by (simp add: parseRecord_def bindS_def nextUint8_def)
        from parseDefinition_frame [OF this] show ?thesis by (simp add: frame_def)
      next
        case c: False
        with assms Inr False have "parseDataMessage fl (header AND 0x0F) None ?q = (Inr u, p')"
          by (simp add: parseRecord_def bindS_def nextUint8_def)
        from parseDataMessage_ok [OF this] show ?thesis by simp
      qed
    qed
  qed
qed

text \<open>
  The loop of \<^verbatim>\<open>parse\<close>: a record that throws ends the loop, with the state as the
  record left it. Every record that returns has moved the cursor, so the loop terminates.
\<close>

function parseLoop :: "(nat \<Rightarrow> byte list \<Rightarrow> number) \<Rightarrow> nat \<Rightarrow> parser \<Rightarrow> parser" where
  "parseLoop fl dataEnd p =
     (if offset p < dataEnd then
        (case parseRecord fl p of
           (Inl e, p') \<Rightarrow> p'
         | (Inr u, p') \<Rightarrow> parseLoop fl dataEnd p')
      else p)"
  by pat_completeness auto

termination parseLoop
proof (relation "measure (\<lambda>(fl, dataEnd, p). dataEnd - offset p)", goal_cases)
  case 1
  show ?case by simp
next
  case (2 fl dataEnd p x p' u)
  then have "parseRecord fl p = (Inr u, p')" by simp
  from parseRecord_ok [OF this] 2(1) show ?case by (simp add: diff_less_mono2)
qed

declare parseLoop.simps [simp del]

text \<open>\<^verbatim>\<open>parse\<close>: an error of the header is thrown on; the loop's are not.\<close>

definition parse :: "(nat \<Rightarrow> byte list \<Rightarrow> number) \<Rightarrow> (string \<rightharpoonup> msg list) step" where
  "parse fl p =
     (case parseHeader p of
        (Inl e, p') \<Rightarrow> (Inl e, p')
      | (Inr u, p1) \<Rightarrow>
          (let pf = parseLoop fl (dataOffset p1 + dataSize p1) p1
           in (Inr (messages pf), pf)))"

text \<open>
  For the statements about the pass: \<open>decoded fl dataEnd p q\<close> holds when the loop, started in
  \<open>p\<close>, reaches \<open>q\<close> through records that were all decoded without a throw.
\<close>

inductive decoded :: "(nat \<Rightarrow> byte list \<Rightarrow> number) \<Rightarrow> nat \<Rightarrow> parser \<Rightarrow> parser \<Rightarrow> bool" where
  decoded_none: "decoded fl dataEnd p p"
| decoded_record:
    "offset p < dataEnd \<Longrightarrow> parseRecord fl p = (Inr u, p') \<Longrightarrow> decoded fl dataEnd p' q \<Longrightarrow>
     decoded fl dataEnd p q"

section \<open>Properties of the rounding\<close>

lemma round_even_of_int [simp]: "round_even (of_int n) = n"
  by (simp add: round_even_def)

lemma round_even_range: "round_even r = \<lfloor>r\<rfloor> \<or> round_even r = \<lfloor>r\<rfloor> + 1"
  by (simp add: round_even_def Let_def)

lemma round_even_err: "\<bar>of_int (round_even r) - r\<bar> \<le> 1 / 2"
  unfolding round_even_def Let_def by (simp; linarith)

lemma round_even_mono: "r \<le> s \<Longrightarrow> round_even r \<le> round_even s"
proof -
  assume rs: "r \<le> s"
  then have f: "\<lfloor>r\<rfloor> \<le> \<lfloor>s\<rfloor>" by (rule floor_mono)
  show ?thesis
  proof (cases "\<lfloor>r\<rfloor> = \<lfloor>s\<rfloor>")
    case True
    with rs show ?thesis unfolding round_even_def Let_def by (simp; linarith)
  next
    case False
    with f have "\<lfloor>r\<rfloor> + 1 \<le> \<lfloor>s\<rfloor>" by simp
    with round_even_range [of r] round_even_range [of s] show ?thesis by linarith
  qed
qed

lemma round_even_minus: "round_even (- r) = - round_even r"
proof (cases "r = of_int \<lfloor>r\<rfloor>")
  case True
  then obtain n where "r = of_int n" ..
  then have "- r = of_int (- n)" by simp
  then show ?thesis using \<open>r = of_int n\<close> by (simp only: round_even_of_int)
next
  case False
  then have l: "of_int \<lfloor>r\<rfloor> < r" using of_int_floor_le [of r] by linarith
  have u: "r < of_int \<lfloor>r\<rfloor> + 1" by linarith
  from l u have f: "\<lfloor>- r\<rfloor> = - \<lfloor>r\<rfloor> - 1" by (intro floor_unique; simp; linarith)
  from l u show ?thesis unfolding round_even_def Let_def f by (auto; linarith?)
qed

lemma round_even_nonneg: "0 \<le> r \<Longrightarrow> 0 \<le> round_even r"
  using round_even_mono [of 0 r] round_even_of_int [of 0] by simp

lemma round_even_pow2: "round_even (2 ^ n) = 2 ^ n"
  using round_even_of_int [of "2 ^ n"] by simp

lemma expo_search_props:
  "- 1022 \<le> k \<Longrightarrow>
   - 1022 \<le> expo_search k a \<and> expo_search k a \<le> k \<and>
   (expo_search k a = - 1022 \<or> 2 powi (expo_search k a) \<le> a) \<and>
   (expo_search k a = k \<or> a < 2 powi (expo_search k a + 1))"
proof (induction k a rule: expo_search.induct)
  case (1 k a)
  show ?case
  proof (cases "k \<le> - 1022")
    case True
    with 1(2) show ?thesis by (subst (1 2 3 4 5 6) expo_search.simps) simp
  next
    case False
    show ?thesis
    proof (cases "2 powi k \<le> a")
      case True
      with False show ?thesis by (subst (1 2 3 4 5 6) expo_search.simps) simp
    next
      case n: False
      have e: "expo_search k a = expo_search (k - 1) a"
        using False n by (subst expo_search.simps) simp
      from False have "- 1022 \<le> k - 1" by simp
      from 1(1) [OF False n this] n show ?thesis unfolding e by auto
    qed
  qed
qed

lemma expo_props:
  "- 1022 \<le> expo x" "expo x \<le> 1023"
  "expo x = - 1022 \<or> 2 powi (expo x) \<le> \<bar>x\<bar>"
  "expo x = 1023 \<or> \<bar>x\<bar> < 2 powi (expo x + 1)"
  using expo_search_props [of 1023 "\<bar>x\<bar>"] by (simp_all add: expo_def)

lemma expo_le:
  assumes "- 1022 \<le> k" "\<bar>x\<bar> < 2 powi (k + 1)"
  shows "expo x \<le> k"
proof (rule ccontr)
  assume "\<not> expo x \<le> k"
  then have g: "k + 1 \<le> expo x" by simp
  with assms(1) expo_props(3) [of x] have "2 powi (expo x) \<le> \<bar>x\<bar>" by auto
  moreover from g have "(2::real) powi (k + 1) \<le> 2 powi (expo x)"
    by (rule power_int_increasing) simp
  ultimately show False using assms(2) by linarith
qed

lemma expo_ge:
  assumes "k \<le> 1023" "2 powi k \<le> \<bar>x\<bar>"
  shows "k \<le> expo x"
proof (rule ccontr)
  assume "\<not> k \<le> expo x"
  then have g: "expo x + 1 \<le> k" by simp
  with assms(1) expo_props(4) [of x] have u: "\<bar>x\<bar> < 2 powi (expo x + 1)" by auto
  from g have "(2::real) powi (expo x + 1) \<le> 2 powi k"
    by (rule power_int_increasing) simp
  with u assms(2) show False by linarith
qed

lemma expo_eq:
  assumes "- 1022 \<le> k" "k \<le> 1023" "2 powi k \<le> \<bar>x\<bar>" "\<bar>x\<bar> < 2 powi (k + 1)"
  shows "expo x = k"
  using expo_le [OF assms(1,4)] expo_ge [OF assms(2,3)] by simp

lemma expo_mono:
  assumes "\<bar>x\<bar> \<le> \<bar>y\<bar>"
  shows "expo x \<le> expo y"
proof (cases "expo x = - 1022")
  case True
  with expo_props(1) [of y] show ?thesis by simp
next
  case False
  with expo_props(3) [of x] assms have "2 powi (expo x) \<le> \<bar>y\<bar>" by simp
  with expo_props(2) [of x] show ?thesis by (intro expo_ge)
qed

lemma expo_minus [simp]: "expo (- x) = expo x"
  by (simp add: expo_def)

lemma ulp_minus [simp]: "ulp (- x) = ulp x"
  by (simp add: ulp_def)

lemma ulp_pos [simp]: "0 < ulp x"
  by (simp add: ulp_def)

lemma ulp_nonneg [simp]: "0 \<le> ulp x"
  using ulp_pos [of x] by linarith

lemma ulp_neq0 [simp]: "ulp x \<noteq> 0"
  using ulp_pos [of x] by linarith

lemma ulp_le:
  assumes "- 1022 \<le> k" "\<bar>x\<bar> < 2 powi (k + 1)"
  shows "ulp x \<le> 2 powi (k - 52)"
  unfolding ulp_def using expo_le [OF assms] by (intro power_int_increasing) simp_all

lemma ulp_scale: "2 powi k = 2 ^ 52 * (2 powi (k - 52) :: real)"
  by (simp add: power_int_diff)

lemma ulp_scale53: "2 powi (k + 1) = 2 ^ 53 * (2 powi (k - 52) :: real)"
  by (simp add: power_int_diff power_int_add)

lemma rnd_0 [simp]: "rnd 0 = 0"
  using round_even_of_int [of 0] by (simp add: rnd_def)

lemma rnd_minus: "rnd (- x) = - rnd x"
  by (simp add: rnd_def round_even_minus)

lemma rnd_nonneg: "0 \<le> x \<Longrightarrow> 0 \<le> rnd x"
  unfolding rnd_def using round_even_nonneg [of "x / ulp x"] by (simp add: mult_nonneg_nonneg)

text \<open>The rounding error is at most half a unit in the last place.\<close>

lemma rnd_err: "\<bar>rnd x - x\<bar> \<le> ulp x / 2"
proof -
  have "rnd x - x = (of_int (round_even (x / ulp x)) - x / ulp x) * ulp x"
    by (simp add: rnd_def left_diff_distrib)
  then have "\<bar>rnd x - x\<bar> = \<bar>of_int (round_even (x / ulp x)) - x / ulp x\<bar> * ulp x"
    by (simp add: abs_mult)
  also have "\<dots> \<le> 1 / 2 * ulp x"
    by (rule mult_right_mono [OF round_even_err]) simp
  finally show ?thesis by simp
qed

text \<open>A rounded number stays in the closed binade of its argument.\<close>

lemma rnd_lower:
  assumes "0 \<le> x" "2 powi (expo x) \<le> x"
  shows "2 powi (expo x) \<le> rnd x"
proof -
  have "(2::real) ^ 52 \<le> x / ulp x"
    using assms(2) ulp_scale [of "expo x"] by (simp add: ulp_def pos_le_divide_eq)
  then have "round_even (2 ^ 52) \<le> round_even (x / ulp x)"
    by (rule round_even_mono)
  then have "(2::real) ^ 52 \<le> of_int (round_even (x / ulp x))"
    unfolding round_even_pow2 by (metis of_int_le_iff of_int_numeral of_int_power)
  then have "2 ^ 52 * ulp x \<le> rnd x"
    unfolding rnd_def by (rule mult_right_mono) simp
  then show ?thesis using ulp_scale [of "expo x"] by (simp add: ulp_def)
qed

lemma significand_le:
  assumes "0 \<le> x" "x < 2 powi (expo x + 1)"
  shows "round_even (x / ulp x) \<le> 2 ^ 53"
proof -
  have "x / ulp x \<le> (2::real) ^ 53"
    using assms(2) ulp_scale53 [of "expo x"] by (simp add: ulp_def pos_divide_le_eq)
  then have "round_even (x / ulp x) \<le> round_even (2 ^ 53)"
    by (rule round_even_mono)
  then show ?thesis unfolding round_even_pow2 .
qed

lemma rnd_upper:
  assumes "0 \<le> x" "x < 2 powi (expo x + 1)"
  shows "rnd x \<le> 2 powi (expo x + 1)"
proof -
  from significand_le [OF assms] have "of_int (round_even (x / ulp x)) \<le> (2::real) ^ 53"
    by (metis of_int_le_iff of_int_numeral of_int_power)
  then have "rnd x \<le> 2 ^ 53 * ulp x"
    unfolding rnd_def by (rule mult_right_mono) simp
  then show ?thesis using ulp_scale53 [of "expo x"] by (simp add: ulp_def)
qed

text \<open>The rounding is monotone.\<close>

lemma rnd_mono_nonneg:
  assumes "0 \<le> x" "x \<le> y"
  shows "rnd x \<le> rnd y"
proof (cases "expo x = expo y")
  case True
  then have u: "ulp x = ulp y" by (simp add: ulp_def)
  from assms(2) have "x / ulp y \<le> y / ulp y" by (rule divide_right_mono) simp
  then have "round_even (x / ulp y) \<le> round_even (y / ulp y)" by (rule round_even_mono)
  then show ?thesis unfolding rnd_def u by (simp add: mult_right_mono)
next
  case False
  from assms have a: "\<bar>x\<bar> \<le> \<bar>y\<bar>" by simp
  from expo_mono [OF a] False have l: "expo x + 1 \<le> expo y" by simp
  with expo_props(2) [of y] expo_props(4) [of x] assms(1) have "x < 2 powi (expo x + 1)" by auto
  from rnd_upper [OF assms(1) this] have "rnd x \<le> 2 powi (expo x + 1)" .
  also from l have "(2::real) powi (expo x + 1) \<le> 2 powi (expo y)"
    by (rule power_int_increasing) simp
  also have "2 powi (expo y) \<le> rnd y"
  proof (rule rnd_lower)
    from assms show "0 \<le> y" by simp
    from l expo_props(1) [of x] expo_props(3) [of y] assms show "2 powi (expo y) \<le> y" by auto
  qed
  finally show ?thesis .
qed

lemma rnd_mono: "x \<le> y \<Longrightarrow> rnd x \<le> rnd y"
proof -
  assume xy: "x \<le> y"
  consider "0 \<le> x" | "x < 0" "0 \<le> y" | "y < 0" by linarith
  then show ?thesis
  proof cases
    case 1
    then show ?thesis using xy by (rule rnd_mono_nonneg)
  next
    case 2
    then have "0 \<le> rnd (- x)" "0 \<le> rnd y" by (simp_all add: rnd_nonneg)
    then show ?thesis by (simp add: rnd_minus)
  next
    case 3
    with xy have "rnd (- y) \<le> rnd (- x)" by (intro rnd_mono_nonneg) simp_all
    then show ?thesis by (simp add: rnd_minus)
  qed
qed

text \<open>A number with a significand of at most 53 bits and an exponent in range is a double:
  the rounding leaves it as it is.\<close>

lemma rnd_fixed_nonneg:
  assumes "0 \<le> n" "- 1074 \<le> e" "e \<le> 971" "n \<le> 2 ^ 53 \<or> e = 971"
  shows "rnd (of_int n * 2 powi e) = of_int n * 2 powi e"
proof -
  define y :: real where "y = of_int n * 2 powi e"
  define k where "k = expo y"
  have y0: "0 \<le> y" using assms(1) by (simp add: y_def)
  have "\<exists>m. y / ulp y = of_int m"
  proof (cases "k - 52 \<le> e")
    case True
    define P :: real where "P = 2 ^ nat (e - (k - 52))"
    define U :: real where "U = 2 powi (k - 52)"
    have U: "U \<noteq> 0" by (simp add: U_def)
    from True have "(2::real) powi (e - (k - 52)) = P"
      by (simp add: power_int_def P_def)
    moreover have "(2::real) powi e = 2 powi (e - (k - 52)) * 2 powi (k - 52)"
      by (simp add: power_int_add [symmetric])
    ultimately have "(2::real) powi e = P * U" by (simp add: U_def)
    then have "y / ulp y = of_int n * (P * U) / U"
      by (simp add: y_def ulp_def k_def U_def)
    also have "\<dots> = of_int n * P" using U by simp
    also have "\<dots> = of_int (n * 2 ^ nat (e - (k - 52)))" by (simp add: P_def)
    finally have "y / ulp y = of_int (n * 2 ^ nat (e - (k - 52)))" .
    then show ?thesis ..
  next
    case False
    then have l: "e + 53 \<le> k" by simp
    with assms(2) have "k \<noteq> - 1022" by simp
    with expo_props(3) [of y] y0 have lo: "2 powi k \<le> y" by (simp add: k_def)
    from l expo_props(2) [of y] have "e \<noteq> 971" by (simp add: k_def)
    with assms(4) have n: "n \<le> 2 ^ 53" by simp
    then have "(of_int n :: real) \<le> 2 ^ 53"
      by (metis of_int_le_iff of_int_numeral of_int_power)
    then have "y \<le> 2 ^ 53 * 2 powi e" unfolding y_def by (rule mult_right_mono) simp
    also have "\<dots> = 2 powi (e + 53)" by (simp add: power_int_add)
    finally have hi: "y \<le> 2 powi (e + 53)" .
    have ke: "k = e + 53"
    proof (rule ccontr)
      assume "k \<noteq> e + 53"
      with l have "e + 53 + 1 \<le> k" by simp
      then have "(2::real) powi (e + 53 + 1) \<le> 2 powi k" by (rule power_int_increasing) simp
      moreover have "(2::real) powi (e + 53) < 2 powi (e + 53 + 1)"
        by (rule power_int_strict_increasing) simp_all
      ultimately show False using lo hi by linarith
    qed
    have "e + 53 - 52 = e + 1" by simp
    then have u: "ulp y = 2 powi (e + 1)" unfolding ulp_def k_def [symmetric] ke by (simp only:)
    from lo hi ke have yv: "y = 2 powi (e + 53)" by simp
    have "y / ulp y = 2 powi (e + 53) / 2 powi (e + 1)"
      unfolding u by (simp only: yv)
    also have "\<dots> = 2 powi ((e + 53) - (e + 1))" by (rule power_int_diff [symmetric]) simp
    also have "\<dots> = of_int (2 ^ 52)" by simp
    finally show ?thesis ..
  qed
  then obtain m where m: "y / ulp y = of_int m" ..
  then have "rnd y = y / ulp y * ulp y" unfolding rnd_def by (simp only: round_even_of_int)
  then show ?thesis by (simp add: y_def)
qed

lemma rnd_fixed:
  assumes "- 1074 \<le> e" "e \<le> 971" "\<bar>n\<bar> \<le> 2 ^ 53 \<or> e = 971"
  shows "rnd (of_int n * 2 powi e) = of_int n * 2 powi e"
proof (cases "0 \<le> n")
  case True
  with assms show ?thesis by (intro rnd_fixed_nonneg) simp_all
next
  case False
  with assms have "rnd (of_int (- n) * 2 powi e) = of_int (- n) * 2 powi e"
    by (intro rnd_fixed_nonneg) simp_all
  then show ?thesis using rnd_minus [of "of_int n * 2 powi e"] by simp
qed

lemma rnd_of_int: "\<bar>n\<bar> \<le> 2 ^ 53 \<Longrightarrow> rnd (of_int n) = of_int n"
  using rnd_fixed [of 0 n] by simp

lemma rnd_numeral: "(numeral n :: int) \<le> 2 ^ 53 \<Longrightarrow> rnd (numeral n) = numeral n"
  using rnd_of_int [of "numeral n"] by simp

lemma rnd_1 [simp]: "rnd 1 = 1"
  using rnd_of_int [of 1] by simp

text \<open>The rounding is idempotent: its results are doubles.\<close>

lemma rnd_rnd_nonneg:
  assumes "0 \<le> x"
  shows "rnd (rnd x) = rnd x"
proof -
  define n where "n = round_even (x / ulp x)"
  have n0: "0 \<le> n" unfolding n_def using assms by (intro round_even_nonneg) simp
  have e: "- 1074 \<le> expo x - 52" "expo x - 52 \<le> 971"
    using expo_props(1,2) [of x] by simp_all
  have "n \<le> 2 ^ 53 \<or> expo x - 52 = 971"
  proof (cases "expo x = 1023")
    case True
    then show ?thesis by simp
  next
    case False
    with expo_props(4) [of x] assms have "x < 2 powi (expo x + 1)" by simp
    from significand_le [OF assms this] show ?thesis by (simp add: n_def)
  qed
  from rnd_fixed_nonneg [OF n0 e this] show ?thesis
    by (simp add: rnd_def n_def ulp_def)
qed

lemma rnd_rnd [simp]: "rnd (rnd x) = rnd x"
proof (cases "0 \<le> x")
  case True
  then show ?thesis by (rule rnd_rnd_nonneg)
next
  case False
  then have "rnd (rnd (- x)) = rnd (- x)" by (intro rnd_rnd_nonneg) simp
  then show ?thesis by (simp add: rnd_minus)
qed

text \<open>The results of the operators are doubles.\<close>

lemma rnd_fdiv [simp]: "rnd (fdiv x y) = fdiv x y"
  by (simp add: fdiv_def)

lemma rnd_fadd [simp]: "rnd (fadd x y) = fadd x y"
  by (simp add: fadd_def)

lemma rnd_fsub [simp]: "rnd (fsub x y) = fsub x y"
  by (simp add: fsub_def)

lemma rnd_fmul [simp]: "rnd (fmul x y) = fmul x y"
  by (simp add: fmul_def)

text \<open>The rounding of a number whose binade is known, for the evaluation of examples.\<close>

lemma rnd_eval:
  assumes "- 1022 \<le> k" "k \<le> 1023" "2 powi k \<le> \<bar>x\<bar>" "\<bar>x\<bar> < 2 powi (k + 1)"
  shows "rnd x = of_int (round_even (x / 2 powi (k - 52))) * 2 powi (k - 52)"
  using expo_eq [OF assms] by (simp add: rnd_def ulp_def)

section \<open>Properties of the reconciler\<close>

lemma and_then_Inr [simp]: "and_then (Inr x) f = f x"
  by (simp add: and_then_def)

lemma and_then_Inl [simp]: "and_then (Inl e) f = Inl e"
  by (simp add: and_then_def)

lemma mapE_Inr: "(\<And>x. x \<in> set xs \<Longrightarrow> f x = Inr (g x)) \<Longrightarrow> mapE f xs = Inr (map g xs)"
  by (induction xs) simp_all

lemma length_lapBounds [simp]: "length (lapBounds c ls) = length ls"
  by (induction ls arbitrary: c) (simp_all add: Let_def)

text \<open>The bound of every lap exists, so that no callback throws.\<close>

lemma computeLapStats_ok:
  "computeLapStats laps records =
     Inr (map (\<lambda>(index, l). lapStat l index (lapBounds 0 laps ! index) records)
            (enumerate 0 laps))"
  unfolding computeLapStats_def Let_def
  by (rule mapE_Inr) (auto simp: index_opt_def in_set_enumerate_eq)

lemma computeLapStats_nth:
  assumes "computeLapStats laps records = Inr stats" and "i < length laps"
  shows "stats ! i = lapStat (laps ! i) i (lapBounds 0 laps ! i) records"
  using assms unfolding computeLapStats_ok by (auto simp: nth_enumerate_eq)

lemma in_window_conj: "((\<exists>y. distance x = Some y) \<and> in_window b x) = in_window b x"
  by (auto simp: in_window_def split: option.splits)

lemma mset_distanceMatched:
  "mset (distanceMatched b records) = filter_mset (in_window b) (mset records)"
  unfolding distanceMatched_def sortedRecords_def
  by (simp add: filter_sort in_window_conj)

lemma distanceMatched_sort:
  "distanceMatched b records = sort_key (\<lambda>r. the (distance r)) (filter (in_window b) records)"
  unfolding distanceMatched_def sortedRecords_def
  by (simp add: filter_sort in_window_conj)

lemma set_distanceMatched:
  "set (distanceMatched b records) = {r \<in> set records. in_window b r}"
  using mset_distanceMatched [of b records, THEN arg_cong, of set_mset] by auto

lemma Math_min_Min: "xs \<noteq> [] \<Longrightarrow> Math_min xs = Min (set xs)"
proof (cases xs)
  case (Cons a list)
  then show ?thesis using Min.set_eq_fold [of a list] by simp
qed simp

lemma Math_max_Max: "xs \<noteq> [] \<Longrightarrow> Math_max xs = Max (set xs)"
proof (cases xs)
  case (Cons a list)
  then show ?thesis using Max.set_eq_fold [of a list] by simp
qed simp

lemma lapBounds_nth:
  "i < length ls \<Longrightarrow>
   start (lapBounds c ls ! i) =
     foldl (\<lambda>a l. fadd a (or_zero (total_distance l))) c (take i ls) \<and>
   end' (lapBounds c ls ! i) =
     fadd (start (lapBounds c ls ! i)) (or_zero (total_distance (ls ! i)))"
proof (induction ls arbitrary: c i)
  case Nil
  then show ?case by simp
next
  case (Cons l ls)
  show ?case
  proof (cases i)
    case 0
    then show ?thesis by (simp add: Let_def)
  next
    case (Suc j)
    with Cons.prems have "j < length ls" by simp
    from Cons.IH [OF this] Suc show ?thesis by (simp add: Let_def)
  qed
qed

text \<open>The start of every window is a double, and a lap of non-negative distance has a window
  that does not end before it starts.\<close>

lemma lapBounds_start_double:
  "i < length ls \<Longrightarrow> rnd c = c \<Longrightarrow> rnd (start (lapBounds c ls ! i)) = start (lapBounds c ls ! i)"
proof (induction ls arbitrary: c i)
  case Nil
  then show ?case by simp
next
  case (Cons l ls)
  show ?case
  proof (cases i)
    case 0
    with Cons.prems show ?thesis by (simp add: Let_def)
  next
    case (Suc j)
    with Cons.prems have "j < length ls" by simp
    from Cons.IH [OF this, of "fadd c (or_zero (total_distance l))"] Suc show ?thesis
      by (simp add: Let_def fadd_def)
  qed
qed

lemma lapBounds_start_le_end:
  assumes "i < length ls" and "0 \<le> or_zero (total_distance (ls ! i))"
  shows "start (lapBounds 0 ls ! i) \<le> end' (lapBounds 0 ls ! i)"
proof -
  let ?s = "start (lapBounds 0 ls ! i)"
  from lapBounds_start_double [OF assms(1), of 0] have "?s = rnd ?s" by simp
  also have "\<dots> \<le> rnd (?s + or_zero (total_distance (ls ! i)))"
    using assms(2) by (intro rnd_mono) simp
  also have "\<dots> = end' (lapBounds 0 ls ! i)"
    using lapBounds_nth [OF assms(1), of 0] by (simp add: fadd_def)
  finally show ?thesis .
qed

lemma rnd_add10_le:
  assumes "\<bar>e\<bar> \<le> 2 ^ 40"
  shows "rnd (e + 10) \<le> e + 10 + 1 / 2 ^ 13"
proof -
  have "\<bar>e + 10\<bar> < 2 powi (40 + 1)" using assms by simp
  then have "ulp (e + 10) \<le> 2 powi (40 - 52)" by (intro ulp_le) simp_all
  then have "ulp (e + 10) \<le> 1 / 4096" by (simp add: power_int_minus_divide)
  moreover from rnd_err [of "e + 10"] have "rnd (e + 10) - (e + 10) \<le> ulp (e + 10) / 2"
    by linarith
  ultimately show ?thesis by simp
qed

text \<open>
  Claim C5, as amended. The window of lap \<open>i\<close> runs from the running sum of the distances of
  the laps before it to that sum plus its own distance, both rounded as the source's
  additions round them. Distance matching selects exactly the records (with their
  multiplicity) that have a distance \<open>d\<close> between the rounded \<open>start - 10\<close> and the rounded
  \<open>end + 10\<close>. Every record whose distance lies between the exact \<open>start - 10\<close> and
  \<open>end + 10\<close> is selected; so is, for a lap of non-negative distance, every record from
  \<open>end\<close> to \<open>end + 9.9\<close>; and for a window that ends below \<open>2^40\<close> meters no record at
  \<open>end + 10.1\<close> or beyond is selected.
\<close>

theorem distance_matching_tolerance:
  assumes "i < length laps" and "b = lapBounds 0 laps ! i"
  shows "start b = foldl (\<lambda>c l. fadd c (or_zero (total_distance l))) 0 (take i laps) \<and>
         end' b = fadd (start b) (or_zero (total_distance (laps ! i))) \<and>
         mset (distanceMatched b records) =
           filter_mset (\<lambda>r. \<exists>d. distance r = Some d \<and> fsub (start b) 10 \<le> d \<and> d \<le> fadd (end' b) 10)
             (mset records) \<and>
         (\<forall>r \<in> set records. \<forall>d.
            distance r = Some d \<and> rnd d = d \<and> start b - 10 \<le> d \<and> d \<le> end' b + 10 \<longrightarrow>
            r \<in> set (distanceMatched b records)) \<and>
         (\<forall>r \<in> set records. \<forall>d.
            distance r = Some d \<and> rnd d = d \<and> 0 \<le> or_zero (total_distance (laps ! i)) \<and>
            end' b \<le> d \<and> d \<le> end' b + 9.9 \<longrightarrow>
            r \<in> set (distanceMatched b records)) \<and>
         (\<forall>r \<in> set records. \<forall>d.
            distance r = Some d \<and> \<bar>end' b\<bar> \<le> 2 ^ 40 \<and> end' b + 10.1 \<le> d \<longrightarrow>
            r \<notin> set (distanceMatched b records))"
proof -
  have w: "in_window b = (\<lambda>r. \<exists>d. distance r = Some d \<and> fsub (start b) 10 \<le> d \<and> d \<le> fadd (end' b) 10)"
    by (auto simp: in_window_def fun_eq_iff split: option.splits)
  note s = set_distanceMatched [of b records]
  from assms lapBounds_nth [of i laps 0] have
    b: "start b = foldl (\<lambda>c l. fadd c (or_zero (total_distance l))) 0 (take i laps)"
       "end' b = fadd (start b) (or_zero (total_distance (laps ! i)))"
    by simp_all
  have m: "mset (distanceMatched b records) =
      filter_mset (\<lambda>r. \<exists>d. distance r = Some d \<and> fsub (start b) 10 \<le> d \<and> d \<le> fadd (end' b) 10)
        (mset records)"
    using mset_distanceMatched [of b records] w by simp
  have inc: "r \<in> set (distanceMatched b records)"
    if "r \<in> set records" "distance r = Some d" "rnd d = d" "start b - 10 \<le> d" "d \<le> end' b + 10"
    for r d
  proof -
    from that(4) have "rnd (start b - 10) \<le> rnd d" by (rule rnd_mono)
    moreover from that(5) have "rnd d \<le> rnd (end' b + 10)" by (rule rnd_mono)
    ultimately have "in_window b r"
      using that(2,3) by (simp add: in_window_def fsub_def fadd_def)
    with that(1) show ?thesis by (simp add: s)
  qed
  have x: "\<forall>r \<in> set records. \<forall>d.
            distance r = Some d \<and> rnd d = d \<and> start b - 10 \<le> d \<and> d \<le> end' b + 10 \<longrightarrow>
            r \<in> set (distanceMatched b records)"
    using inc by blast
  have n: "\<forall>r \<in> set records. \<forall>d.
            distance r = Some d \<and> rnd d = d \<and> 0 \<le> or_zero (total_distance (laps ! i)) \<and>
            end' b \<le> d \<and> d \<le> end' b + 9.9 \<longrightarrow>
            r \<in> set (distanceMatched b records)"
  proof (intro ballI allI impI)
    fix r d
    assume r: "r \<in> set records"
      and h: "distance r = Some d \<and> rnd d = d \<and> 0 \<le> or_zero (total_distance (laps ! i)) \<and>
              end' b \<le> d \<and> d \<le> end' b + 9.9"
    from h assms lapBounds_start_le_end [of i laps] have "start b \<le> end' b" by simp
    with h have "start b - 10 \<le> d" "d \<le> end' b + 10" by simp_all
    with r h show "r \<in> set (distanceMatched b records)" by (intro inc [of r d]) simp_all
  qed
  have e: "\<forall>r \<in> set records. \<forall>d.
            distance r = Some d \<and> \<bar>end' b\<bar> \<le> 2 ^ 40 \<and> end' b + 10.1 \<le> d \<longrightarrow>
            r \<notin> set (distanceMatched b records)"
  proof (intro ballI allI impI)
    fix r :: sample and d
    assume h: "distance r = Some d \<and> \<bar>end' b\<bar> \<le> 2 ^ 40 \<and> end' b + 10.1 \<le> d"
    with rnd_add10_le [of "end' b"] have "fadd (end' b) 10 < d" by (simp add: fadd_def)
    with h have "\<not> in_window b r" by (simp add: in_window_def)
    then show "r \<notin> set (distanceMatched b records)" by (simp add: s)
  qed
  from b m x n e show ?thesis by blast
qed

lemma lapBounds_single:
  "lapBounds 0 [l] ! 0 = \<lparr>start = 0, end' = rnd (or_zero (total_distance l))\<rparr>"
  by (simp add: Let_def fadd_def)

theorem distance_matching_tolerance_witness:
  "at_distance 1009.875 \<in> set (distanceMatched (lapBounds 0 [summary_lap 1000] ! 0)
      [at_distance 1009.875, at_distance 1010.125]) \<and>
   at_distance 1010.125 \<notin> set (distanceMatched (lapBounds 0 [summary_lap 1000] ! 0)
      [at_distance 1009.875, at_distance 1010.125])"
proof -
  let ?b = "\<lparr>start = 0, end' = 1000\<rparr>"
  let ?rs = "[at_distance 1009.875, at_distance 1010.125]"
  have bb: "lapBounds 0 [summary_lap 1000] ! 0 = ?b"
    unfolding lapBounds_single by (simp add: summary_lap_def or_zero_def rnd_numeral)
  have d: "rnd (8079 / 8) = 8079 / 8"
    using rnd_fixed [of "- 3" 8079] by (simp add: power_int_minus_divide)
  have i: "(0::nat) < length [summary_lap 1000]" by simp
  note t = distance_matching_tolerance [OF i bb [symmetric], of ?rs]
  from t have "\<forall>r \<in> set ?rs. \<forall>d.
            distance r = Some d \<and> rnd d = d \<and> 0 \<le> or_zero (total_distance ([summary_lap 1000] ! 0)) \<and>
            end' ?b \<le> d \<and> d \<le> end' ?b + 9.9 \<longrightarrow> r \<in> set (distanceMatched ?b ?rs)"
    by blast
  from this [rule_format, of "at_distance 1009.875" "1009.875"]
  have a: "at_distance 1009.875 \<in> set (distanceMatched ?b ?rs)"
    by (simp add: d at_distance_def summary_lap_def or_zero_def)
  from t have "\<forall>r \<in> set ?rs. \<forall>d.
            distance r = Some d \<and> \<bar>end' ?b\<bar> \<le> 2 ^ 40 \<and> end' ?b + 10.1 \<le> d \<longrightarrow>
            r \<notin> set (distanceMatched ?b ?rs)"
    by blast
  from this [rule_format, of "at_distance 1010.125" "1010.125"]
  have b: "at_distance 1010.125 \<notin> set (distanceMatched ?b ?rs)"
    by (simp add: at_distance_def)
  from a b show ?thesis unfolding bb ..
qed

lemma rnd_502_2: "fdiv 50220 100 = 8834795831505715 / 2 ^ 44"
  unfolding fdiv_def
  by (subst rnd_eval [of 8]) (simp_all add: round_even_def Let_def power_int_minus)

lemma rnd_512_2: "fdiv 51220 100 = 2252679422987469 / 2 ^ 42"
  unfolding fdiv_def
  by (subst rnd_eval [of 9]) (simp_all add: round_even_def Let_def power_int_minus)

lemma rnd_502_2_plus_10: "rnd (8834795831505715 / 2 ^ 44 + 10) = 2252679422987469 / 2 ^ 42"
  by (subst rnd_eval [of 9]) (simp_all add: round_even_def Let_def power_int_minus)

lemma rnd_pow56: "rnd (2 ^ 56) = 2 ^ 56"
  using rnd_fixed [of 56 1] by simp

lemma rnd_pow56_plus_10: "rnd (2 ^ 56 + 10) = 2 ^ 56 + 16"
  by (subst rnd_eval [of 56]) (simp_all add: round_even_def Let_def power_int_minus)

lemma rnd_minus_10: "rnd (- 10) = - 10"
  using rnd_of_int [of "- 10"] by simp

text \<open>
  Claim C5 as stated fails. A lap of 502.2 m and a record at 512.2 m, as the binary decoder
  delivers them (the raw values 50220 and 51220 divided by 100): the record is selected, and
  its distance exceeds the lap's end plus 10, because the sum \<open>end + 10\<close> is rounded up to the
  record's distance. After a lap of 100 m, a lap of -50 m has the window from 100 to
  50, and a record at 59.875, less than 9.9 past its end, is not selected. A lap of
  \<open>2^56\<close> m: the record at \<open>end + 16\<close> is selected.
\<close>

theorem distance_tolerance_counterexample:
  "at_distance (fdiv 51220 100) \<in>
     set (distanceMatched (lapBounds 0 [summary_lap (fdiv 50220 100)] ! 0)
            [at_distance (fdiv 51220 100)]) \<and>
   end' (lapBounds 0 [summary_lap (fdiv 50220 100)] ! 0) = fdiv 50220 100 \<and>
   fdiv 50220 100 + 10 < fdiv 51220 100 \<and>
   at_distance 59.875 \<notin>
     set (distanceMatched (lapBounds 0 [summary_lap 100, summary_lap (- 50)] ! 1)
            [at_distance 59.875]) \<and>
   lapBounds 0 [summary_lap 100, summary_lap (- 50)] ! 1 = \<lparr>start = 100, end' = 50\<rparr> \<and>
   at_distance (2 ^ 56 + 16) \<in>
     set (distanceMatched (lapBounds 0 [summary_lap (2 ^ 56)] ! 0) [at_distance (2 ^ 56 + 16)]) \<and>
   end' (lapBounds 0 [summary_lap (2 ^ 56)] ! 0) = 2 ^ 56"
proof -
  have b1: "lapBounds 0 [summary_lap (fdiv 50220 100)] ! 0 =
              \<lparr>start = 0, end' = fdiv 50220 100\<rparr>"
    unfolding lapBounds_single by (simp add: summary_lap_def or_zero_def)
  have s1: "fadd (fdiv 50220 100) 10 = fdiv 51220 100"
    unfolding fadd_def rnd_502_2 rnd_502_2_plus_10 rnd_512_2 ..
  have s2: "fsub 0 10 = - 10"
    by (simp add: fsub_def rnd_minus_10)
  have s3: "- 10 \<le> fdiv 51220 100"
    unfolding rnd_512_2 by simp
  have a: "at_distance (fdiv 51220 100) \<in>
     set (distanceMatched (lapBounds 0 [summary_lap (fdiv 50220 100)] ! 0)
            [at_distance (fdiv 51220 100)])"
    unfolding set_distanceMatched b1
    by (simp add: in_window_def at_distance_def s1 s2 s3)
  have b: "end' (lapBounds 0 [summary_lap (fdiv 50220 100)] ! 0) = fdiv 50220 100"
    unfolding b1 by simp
  have c: "fdiv 50220 100 + 10 < fdiv 51220 100"
    unfolding rnd_502_2 rnd_512_2 by simp
  have b2: "lapBounds 0 [summary_lap 100, summary_lap (- 50)] ! 1 = \<lparr>start = 100, end' = 50\<rparr>"
    using rnd_of_int [of 100] rnd_of_int [of 50]
    by (simp add: summary_lap_def or_zero_def Let_def fadd_def)
  have d: "at_distance 59.875 \<notin>
     set (distanceMatched (lapBounds 0 [summary_lap 100, summary_lap (- 50)] ! 1)
            [at_distance 59.875])"
    unfolding set_distanceMatched b2 using rnd_of_int [of 90]
    by (simp add: in_window_def at_distance_def fsub_def)
  have b3: "lapBounds 0 [summary_lap (2 ^ 56)] ! 0 = \<lparr>start = 0, end' = 2 ^ 56\<rparr>"
    unfolding lapBounds_single using rnd_pow56 by (simp add: summary_lap_def or_zero_def)
  have e: "at_distance (2 ^ 56 + 16) \<in>
     set (distanceMatched (lapBounds 0 [summary_lap (2 ^ 56)] ! 0) [at_distance (2 ^ 56 + 16)])"
    unfolding set_distanceMatched b3 using rnd_pow56_plus_10
    by (simp add: in_window_def at_distance_def fsub_def fadd_def rnd_minus_10)
  have f: "end' (lapBounds 0 [summary_lap (2 ^ 56)] ! 0) = 2 ^ 56"
    unfolding b3 by simp
  from a b c d b2 e f show ?thesis by blast
qed

lemma distanceMatched_empty:
  "distanceMatched b records = [] \<longleftrightarrow> (\<forall>r \<in> set records. \<not> in_window b r)"
  using set_distanceMatched [of b records] by (auto simp: set_empty [symmetric] simp del: set_empty)

text \<open>
  Claim C6. Distance matching selects nothing exactly when no record has a distance in the
  widened window. When it selects nothing and the lap has a start and an end timestamp, the
  lap's records are exactly the records with a timestamp in \<open>[start_time, timestamp]\<close>, both
  ends included, taken from all the records (none, when one of the two is NaN); in every
  other case they are the records matched by distance.
\<close>

theorem timestamp_fallback:
  "(distanceMatched b records = [] \<longleftrightarrow>
      (\<forall>r \<in> set records. \<forall>d. distance r = Some d \<longrightarrow>
         \<not> (fsub (start b) 10 \<le> d \<and> d \<le> fadd (end' b) 10))) \<and>
   (\<forall>t0 t1. distanceMatched b records = [] \<and> start_time l = Num t0 \<and> lap.timestamp l = Num t1 \<longrightarrow>
      lapRecords l b records =
        filter (\<lambda>r. \<exists>t. sample.timestamp r = Some t \<and> t0 \<le> t \<and> t \<le> t1) records) \<and>
   (distanceMatched b records \<noteq> [] \<or> \<not> non_null (start_time l) \<or> \<not> non_null (lap.timestamp l) \<longrightarrow>
      lapRecords l b records = distanceMatched b records) \<and>
   (distanceMatched b records = [] \<and> non_null (start_time l) \<and> non_null (lap.timestamp l) \<and>
    (start_time l = NaN \<or> lap.timestamp l = NaN) \<longrightarrow>
      lapRecords l b records = [])"
proof -
  have a: "distanceMatched b records = [] \<longleftrightarrow>
      (\<forall>r \<in> set records. \<forall>d. distance r = Some d \<longrightarrow>
         \<not> (fsub (start b) 10 \<le> d \<and> d \<le> fadd (end' b) 10))"
    by (auto simp: distanceMatched_empty in_window_def split: option.splits)
  have t: "in_time l = (\<lambda>r. \<exists>t. sample.timestamp r = Some t \<and> t0 \<le> t \<and> t \<le> t1)"
    if "start_time l = Num t0" "lap.timestamp l = Num t1" for t0 t1
    using that by (auto simp: in_time_def ge_val_def le_val_def fun_eq_iff split: option.splits)
  have f: "\<forall>t0 t1. distanceMatched b records = [] \<and> start_time l = Num t0 \<and> lap.timestamp l = Num t1 \<longrightarrow>
      lapRecords l b records =
        filter (\<lambda>r. \<exists>t. sample.timestamp r = Some t \<and> t0 \<le> t \<and> t \<le> t1) records"
    by (auto simp: lapRecords_def t)
  have n: "distanceMatched b records \<noteq> [] \<or> \<not> non_null (start_time l) \<or> \<not> non_null (lap.timestamp l) \<longrightarrow>
      lapRecords l b records = distanceMatched b records"
    by (auto simp: lapRecords_def)
  have k: "in_time l = (\<lambda>r. False)" if "start_time l = NaN \<or> lap.timestamp l = NaN"
    using that by (auto simp: in_time_def ge_val_def le_val_def fun_eq_iff split: option.splits)
  have v: "distanceMatched b records = [] \<and> non_null (start_time l) \<and> non_null (lap.timestamp l) \<and>
    (start_time l = NaN \<or> lap.timestamp l = NaN) \<longrightarrow> lapRecords l b records = []"
    using k by (auto simp: lapRecords_def)
  from a f n v show ?thesis by blast
qed

theorem timestamp_fallback_witness:
  "distanceMatched \<lparr>start = 0, end' = 100\<rparr>
      [mk_sample 50 120 5000, \<lparr>timestamp = None, heart_rate = Some 90, distance = None, speed = None\<rparr>] = [] \<and>
   lapRecords (mk_lap 0 100 100) \<lparr>start = 0, end' = 100\<rparr>
      [mk_sample 50 120 5000, \<lparr>timestamp = None, heart_rate = Some 90, distance = None, speed = None\<rparr>]
     = [mk_sample 50 120 5000] \<and>
   lapRecords (mk_lap 0 100 100) \<lparr>start = 0, end' = 100\<rparr> [mk_sample 500 120 50]
     = [mk_sample 500 120 50]"
proof -
  let ?b = "\<lparr>start = 0, end' = 100\<rparr>"
  let ?rs = "[mk_sample 50 120 5000, \<lparr>timestamp = None, heart_rate = Some 90, distance = None, speed = None\<rparr>]"
  have w: "fsub 0 10 = - 10" "fadd 100 10 = 110"
    using rnd_of_int [of "- 10"] rnd_of_int [of 110] by (simp_all add: fsub_def fadd_def)
  have e: "distanceMatched ?b ?rs = []"
    using timestamp_fallback [of ?b ?rs "mk_lap 0 100 100"] by (simp add: mk_sample_def w)
  have s: "start_time (mk_lap 0 100 100) = Num 0" "lap.timestamp (mk_lap 0 100 100) = Num 100"
    by (simp_all add: mk_lap_def)
  have f: "lapRecords (mk_lap 0 100 100) ?b ?rs = [mk_sample 50 120 5000]"
    using timestamp_fallback [of ?b ?rs "mk_lap 0 100 100"] e s by (simp add: mk_sample_def)
  have d: "distanceMatched ?b [mk_sample 500 120 50] = [mk_sample 500 120 50]"
    by (simp add: distanceMatched_def sortedRecords_def in_window_def mk_sample_def w)
  have g: "lapRecords (mk_lap 0 100 100) ?b [mk_sample 500 120 50] = [mk_sample 500 120 50]"
    using timestamp_fallback [of ?b "[mk_sample 500 120 50]" "mk_lap 0 100 100"] d by simp
  from e f g show ?thesis by simp
qed

lemma lapStat_fields:
  "lapNumber (lapStat l i b records) = i + 1"
  "totalDistance (lapStat l i b records) = or_zero (total_distance l)"
  "elapsedTime (lapStat l i b records) = elapsed l"
  "avgPace (lapStat l i b records) =
     (if 0 < or_zero (total_distance l) \<and> 0 < elapsed l
      then Some (fmul (fdiv (elapsed l) (or_zero (total_distance l))) 1000) else None)"
  by (simp_all add: lapStat_def Let_def split_beta)

lemma lapStat_minHR:
  "minHR (lapStat l i b records) =
     (if hrValues (lapRecords l b records) = [] then None
      else Some (Math_min (hrValues (lapRecords l b records))))"
  by (simp add: lapStat_def Let_def split_beta)

lemma lapStat_maxHR:
  "maxHR (lapStat l i b records) =
     (if hrValues (lapRecords l b records) = [] then or_null (max_heart_rate l)
      else Some (Math_max (hrValues (lapRecords l b records))))"
  by (simp add: lapStat_def Let_def split_beta)

lemma lapStat_avgHR:
  "avgHR (lapStat l i b records) =
     (if hrValues (lapRecords l b records) = [] then or_null (avg_heart_rate l)
      else Some (Math_round (fdiv (foldl fadd 0 (hrValues (lapRecords l b records)))
                               (of_nat (length (hrValues (lapRecords l b records)))))))"
  by (simp add: lapStat_def Let_def split_beta)

lemma lapStat_timeToMinHR:
  "timeToMinHR (lapStat l i b records) =
     (if hrValues (lapRecords l b records) = [] then Null
      else case find (\<lambda>r. heart_rate r = Some (Math_min (hrValues (lapRecords l b records))))
                  (hrRecords (lapRecords l b records)) of
             None \<Rightarrow> Null
           | Some m \<Rightarrow>
               if sample.timestamp m \<noteq> None \<and> non_null (start_time l)
               then (case ToNumber (start_time l) of
                       None \<Rightarrow> NaN
                     | Some s \<Rightarrow> Num (Math_round (fsub (the (sample.timestamp m)) s)))
               else Null)"
  by (simp add: lapStat_def Let_def split_beta)

lemma find_filter: "find P (filter Q xs) = find (\<lambda>x. Q x \<and> P x) xs"
  by (induction xs) auto

lemma find_split:
  "find P xs = Some m \<Longrightarrow> \<exists>pre post. xs = pre @ m # post \<and> P m \<and> (\<forall>r \<in> set pre. \<not> P r)"
proof (induction xs)
  case Nil
  then show ?case by simp
next
  case (Cons x xs)
  show ?case
  proof (cases "P x")
    case True
    with Cons.prems have "x = m" by simp
    with True have "x # xs = [] @ m # xs \<and> P m \<and> (\<forall>r \<in> set []. \<not> P r)" by simp
    then show ?thesis by blast
  next
    case False
    with Cons obtain pre post where "xs = pre @ m # post" "P m" "\<forall>r \<in> set pre. \<not> P r"
      by auto
    with False have "x # xs = (x # pre) @ m # post \<and> P m \<and> (\<forall>r \<in> set (x # pre). \<not> P r)"
      by simp
    then show ?thesis by blast
  qed
qed

lemma hrRecords_iff:
  "r \<in> set (hrRecords rs) \<longleftrightarrow> r \<in> set rs \<and> (\<exists>h. heart_rate r = Some h \<and> h > 0)"
  unfolding hrRecords_def by (cases "heart_rate r") simp_all

lemma hrValues_set:
  "set (hrValues rs) = {h. h > 0 \<and> (\<exists>r \<in> set rs. heart_rate r = Some h)}"
proof (rule set_eqI)
  fix h
  have "h \<in> set (hrValues rs) \<longleftrightarrow> (\<exists>r \<in> set (hrRecords rs). h = the (heart_rate r))"
    unfolding hrValues_def by (simp add: image_iff)
  also have "\<dots> \<longleftrightarrow> (\<exists>r \<in> set rs. heart_rate r = Some h \<and> h > 0)"
  proof
    assume "\<exists>r \<in> set (hrRecords rs). h = the (heart_rate r)"
    then obtain r g where "r \<in> set rs" "heart_rate r = Some g" "g > 0" "h = the (heart_rate r)"
      using hrRecords_iff [of _ rs] by blast
    then have "r \<in> set rs" "heart_rate r = Some h \<and> h > 0" by simp_all
    then show "\<exists>r \<in> set rs. heart_rate r = Some h \<and> h > 0" by blast
  next
    assume "\<exists>r \<in> set rs. heart_rate r = Some h \<and> h > 0"
    then obtain r where r: "r \<in> set rs" "heart_rate r = Some h" "h > 0" by blast
    then have "r \<in> set (hrRecords rs)" using hrRecords_iff [of r rs] by blast
    moreover from r have "h = the (heart_rate r)" by simp
    ultimately show "\<exists>r \<in> set (hrRecords rs). h = the (heart_rate r)" by blast
  qed
  finally show "h \<in> set (hrValues rs) \<longleftrightarrow> h \<in> {h. h > 0 \<and> (\<exists>r \<in> set rs. heart_rate r = Some h)}"
    by blast
qed

text \<open>The record with the minimum heart rate is always found.\<close>

lemma lapStat_minHR_time:
  assumes "hrValues (lapRecords l b records) \<noteq> []"
  shows "\<exists>pre m post mn. lapRecords l b records = pre @ m # post \<and>
           mn = Min (set (hrValues (lapRecords l b records))) \<and>
           minHR (lapStat l i b records) = Some mn \<and>
           heart_rate m = Some mn \<and>
           (\<forall>r \<in> set pre. heart_rate r \<noteq> Some mn) \<and>
           timeToMinHR (lapStat l i b records) =
             (if sample.timestamp m \<noteq> None \<and> non_null (start_time l)
              then (case ToNumber (start_time l) of
                      None \<Rightarrow> NaN
                    | Some s \<Rightarrow> Num (Math_round (fsub (the (sample.timestamp m)) s)))
              else Null)"
proof -
  define lrs where "lrs = lapRecords l b records"
  define mn where "mn = Math_min (hrValues lrs)"
  from assms have ne: "hrValues lrs \<noteq> []" by (simp add: lrs_def)
  then have mn: "mn = Min (set (hrValues lrs))" by (simp add: mn_def Math_min_Min)
  with ne have "mn \<in> set (hrValues lrs)" by (metis Min_in List.finite_set set_empty)
  then have pos: "mn > 0" and ex: "\<exists>r \<in> set lrs. heart_rate r = Some mn"
    by (auto simp: hrValues_set)
  have f: "find (\<lambda>r. heart_rate r = Some mn) (hrRecords lrs) = find (\<lambda>r. heart_rate r = Some mn) lrs"
    unfolding hrRecords_def find_filter using pos
    by (intro find_cong) (auto split: option.splits)
  from ex obtain m where m: "find (\<lambda>r. heart_rate r = Some mn) lrs = Some m"
    by (cases "find (\<lambda>r. heart_rate r = Some mn) lrs") (auto simp: find_None_iff)
  from find_split [OF m] obtain pre post where
    sp: "lrs = pre @ m # post" "heart_rate m = Some mn" "\<forall>r \<in> set pre. heart_rate r \<noteq> Some mn"
    by blast
  have mh: "minHR (lapStat l i b records) = Some mn"
    using ne by (simp add: lapStat_minHR lrs_def [symmetric] mn_def)
  have tt: "timeToMinHR (lapStat l i b records) =
             (if sample.timestamp m \<noteq> None \<and> non_null (start_time l)
              then (case ToNumber (start_time l) of
                      None \<Rightarrow> NaN
                    | Some s \<Rightarrow> Num (Math_round (fsub (the (sample.timestamp m)) s)))
              else Null)"
    using ne by (simp add: lapStat_timeToMinHR lrs_def [symmetric] mn_def [symmetric] f m)
  from sp mn mh tt show ?thesis unfolding lrs_def by blast
qed

lemma elapsed_cases:
  "total_timer_time l = Some t \<Longrightarrow> t \<noteq> 0 \<Longrightarrow> elapsed l = t"
  "total_timer_time l = None \<Longrightarrow> start_time l = Undefined \<or> lap.timestamp l = Undefined \<Longrightarrow>
   elapsed l = 0"
  by (auto simp: elapsed_def split: option.splits)

text \<open>
  Claim C8. No input makes \<open>computeLapStats\<close> throw: the bound of every lap exists. It
  returns one statistic per lap, in lap order: entry \<open>i\<close> has the number \<open>i + 1\<close> and the
  distance and elapsed time of lap \<open>i\<close> (its timer time when that is not 0, and 0 when it
  has neither a timer time nor both timestamps), and a pace when both are positive. When no record
  matched to lap \<open>i\<close> has a positive heart rate (no records at all, or records without the
  fields), the minimum heart rate and the time to it are \<^verbatim>\<open>null\<close> and the maximum and
  average are those of the lap's summary, or \<^verbatim>\<open>null\<close>; otherwise the minimum, the
  maximum and the rounded mean are those of the positive heart rates of the records matched
  to lap \<open>i\<close>. With no laps the result is empty.
\<close>

theorem reconciler_one_stat_per_lap:
  "\<exists>stats. computeLapStats laps records = Inr stats \<and> length stats = length laps \<and>
     (\<forall>i < length laps. \<forall>H.
        H = {h. h > 0 \<and> (\<exists>r \<in> set (lapRecords (laps ! i) (lapBounds 0 laps ! i) records).
                            heart_rate r = Some h)} \<longrightarrow>
        lapNumber (stats ! i) = i + 1 \<and>
        totalDistance (stats ! i) = or_zero (total_distance (laps ! i)) \<and>
        elapsedTime (stats ! i) = elapsed (laps ! i) \<and>
        (\<forall>t. total_timer_time (laps ! i) = Some t \<and> t \<noteq> 0 \<longrightarrow> elapsedTime (stats ! i) = t) \<and>
        (total_timer_time (laps ! i) = None \<and>
         (start_time (laps ! i) = Undefined \<or> lap.timestamp (laps ! i) = Undefined) \<longrightarrow>
           elapsedTime (stats ! i) = 0 \<and> avgPace (stats ! i) = None) \<and>
        avgPace (stats ! i) =
          (if 0 < or_zero (total_distance (laps ! i)) \<and> 0 < elapsed (laps ! i)
           then Some (fmul (fdiv (elapsed (laps ! i)) (or_zero (total_distance (laps ! i)))) 1000)
           else None) \<and>
        (H = {} \<longrightarrow>
           minHR (stats ! i) = None \<and> timeToMinHR (stats ! i) = Null \<and>
           maxHR (stats ! i) = or_null (max_heart_rate (laps ! i)) \<and>
           avgHR (stats ! i) = or_null (avg_heart_rate (laps ! i))) \<and>
        (H \<noteq> {} \<longrightarrow>
           minHR (stats ! i) = Some (Min H) \<and> maxHR (stats ! i) = Some (Max H) \<and>
           avgHR (stats ! i) =
             Some (Math_round
                     (fdiv (foldl fadd 0
                              (hrValues (lapRecords (laps ! i) (lapBounds 0 laps ! i) records)))
                        (of_nat (length
                              (hrValues (lapRecords (laps ! i) (lapBounds 0 laps ! i) records)))))) \<and>
           timeToMinHR (stats ! i) \<noteq> Undefined)) \<and>
     (laps = [] \<longrightarrow> stats = [])"
proof -
  let ?stats = "map (\<lambda>(index, l). lapStat l index (lapBounds 0 laps ! index) records)
                  (enumerate 0 laps)"
  have ok: "computeLapStats laps records = Inr ?stats" by (rule computeLapStats_ok)
  have len: "length ?stats = length laps" by simp
  have per: "lapNumber (?stats ! i) = i + 1 \<and>
        totalDistance (?stats ! i) = or_zero (total_distance (laps ! i)) \<and>
        elapsedTime (?stats ! i) = elapsed (laps ! i) \<and>
        (\<forall>t. total_timer_time (laps ! i) = Some t \<and> t \<noteq> 0 \<longrightarrow> elapsedTime (?stats ! i) = t) \<and>
        (total_timer_time (laps ! i) = None \<and>
         (start_time (laps ! i) = Undefined \<or> lap.timestamp (laps ! i) = Undefined) \<longrightarrow>
           elapsedTime (?stats ! i) = 0 \<and> avgPace (?stats ! i) = None) \<and>
        avgPace (?stats ! i) =
          (if 0 < or_zero (total_distance (laps ! i)) \<and> 0 < elapsed (laps ! i)
           then Some (fmul (fdiv (elapsed (laps ! i)) (or_zero (total_distance (laps ! i)))) 1000)
           else None) \<and>
        (H = {} \<longrightarrow>
           minHR (?stats ! i) = None \<and> timeToMinHR (?stats ! i) = Null \<and>
           maxHR (?stats ! i) = or_null (max_heart_rate (laps ! i)) \<and>
           avgHR (?stats ! i) = or_null (avg_heart_rate (laps ! i))) \<and>
        (H \<noteq> {} \<longrightarrow>
           minHR (?stats ! i) = Some (Min H) \<and> maxHR (?stats ! i) = Some (Max H) \<and>
           avgHR (?stats ! i) =
             Some (Math_round
                     (fdiv (foldl fadd 0
                              (hrValues (lapRecords (laps ! i) (lapBounds 0 laps ! i) records)))
                        (of_nat (length
                              (hrValues (lapRecords (laps ! i) (lapBounds 0 laps ! i) records)))))) \<and>
           timeToMinHR (?stats ! i) \<noteq> Undefined)"
    if i: "i < length laps"
      and H: "H = {h. h > 0 \<and> (\<exists>r \<in> set (lapRecords (laps ! i) (lapBounds 0 laps ! i) records).
                            heart_rate r = Some h)}"
    for i H
  proof -
    let ?l = "laps ! i" and ?b = "lapBounds 0 laps ! i"
    have n: "?stats ! i = lapStat ?l i ?b records"
      using computeLapStats_nth [OF ok i] .
    define vals where "vals = hrValues (lapRecords ?l ?b records)"
    from H have Hv: "H = set vals" by (simp only: hrValues_set vals_def)
    then have e: "H = {} \<longleftrightarrow> vals = []" by simp
    have c1: "lapNumber (?stats ! i) = i + 1 \<and>
        totalDistance (?stats ! i) = or_zero (total_distance (laps ! i)) \<and>
        elapsedTime (?stats ! i) = elapsed (laps ! i) \<and>
        (\<forall>t. total_timer_time (laps ! i) = Some t \<and> t \<noteq> 0 \<longrightarrow> elapsedTime (?stats ! i) = t) \<and>
        (total_timer_time (laps ! i) = None \<and>
         (start_time (laps ! i) = Undefined \<or> lap.timestamp (laps ! i) = Undefined) \<longrightarrow>
           elapsedTime (?stats ! i) = 0 \<and> avgPace (?stats ! i) = None) \<and>
        avgPace (?stats ! i) =
          (if 0 < or_zero (total_distance (laps ! i)) \<and> 0 < elapsed (laps ! i)
           then Some (fmul (fdiv (elapsed (laps ! i)) (or_zero (total_distance (laps ! i)))) 1000)
           else None)"
      unfolding n lapStat_fields using elapsed_cases [of "laps ! i"] by auto
    have c2: "minHR (?stats ! i) = None \<and> timeToMinHR (?stats ! i) = Null \<and>
           maxHR (?stats ! i) = or_null (max_heart_rate (laps ! i)) \<and>
           avgHR (?stats ! i) = or_null (avg_heart_rate (laps ! i))" if "H = {}"
      using that e unfolding n lapStat_minHR lapStat_maxHR lapStat_avgHR lapStat_timeToMinHR
        vals_def [symmetric] by simp
    have t: "timeToMinHR (?stats ! i) \<noteq> Undefined"
      unfolding n lapStat_timeToMinHR by (simp split: option.splits)
    have c3: "minHR (?stats ! i) = Some (Min H) \<and> maxHR (?stats ! i) = Some (Max H) \<and>
           avgHR (?stats ! i) = Some (Math_round (fdiv (foldl fadd 0 vals) (of_nat (length vals))))"
      if "H \<noteq> {}"
      using that e unfolding n lapStat_minHR lapStat_maxHR lapStat_avgHR vals_def [symmetric]
      by (simp add: Math_min_Min Math_max_Max Hv)
    from c1 c2 c3 t show ?thesis unfolding vals_def by blast
  qed
  have emp: "laps = [] \<longrightarrow> ?stats = []" by simp
  from ok len per emp show ?thesis by blast
qed

lemma fadd_small:
  "fadd 0 100 = 100" "fadd 100 50 = 150" "fadd 100 10 = 110" "fadd 150 10 = 160"
  "fsub 0 10 = - 10" "fsub 100 10 = 90"
  using rnd_of_int [of 100] rnd_of_int [of 150] rnd_of_int [of 110] rnd_of_int [of 160]
    rnd_of_int [of "- 10"] rnd_of_int [of 90]
  by (simp_all add: fadd_def fsub_def)

theorem reconciler_one_stat_per_lap_witness:
  "\<exists>stats. computeLapStats [mk_lap 0 100 100, summary_lap 50]
              [\<lparr>timestamp = None, heart_rate = Some 120, distance = Some 10, speed = None\<rparr>,
               at_distance 20,
               \<lparr>timestamp = Some 5, heart_rate = None, distance = None, speed = None\<rparr>] = Inr stats \<and>
     length stats = 2 \<and> map lapNumber stats = [1, 2] \<and>
     minHR (stats ! 0) = Some 120 \<and> maxHR (stats ! 0) = Some 120 \<and>
     minHR (stats ! 1) = None \<and> timeToMinHR (stats ! 1) = Null \<and>
     maxHR (stats ! 1) = Some 160 \<and> avgHR (stats ! 1) = Some 140 \<and>
     totalDistance (stats ! 1) = 50 \<and> elapsedTime (stats ! 1) = 0 \<and> avgPace (stats ! 1) = None"
proof -
  let ?r1 = "\<lparr>timestamp = None, heart_rate = Some 120, distance = Some 10, speed = None\<rparr>"
  let ?r3 = "\<lparr>timestamp = Some 5, heart_rate = None, distance = None, speed = None\<rparr>"
  let ?L = "[mk_lap 0 100 100, summary_lap 50]"
  let ?R = "[?r1, at_distance 20, ?r3]"
  have b0: "lapBounds 0 ?L ! 0 = \<lparr>start = 0, end' = 100\<rparr>"
    by (simp add: Let_def mk_lap_def or_zero_def fadd_small)
  have b1: "lapBounds 0 ?L ! 1 = \<lparr>start = 100, end' = 150\<rparr>"
    by (simp add: Let_def mk_lap_def summary_lap_def or_zero_def fadd_small)
  have s: "sortedRecords ?R = [?r1, at_distance 20]"
    by (simp add: sortedRecords_def at_distance_def)
  have m0: "lapRecords (?L ! 0) (lapBounds 0 ?L ! 0) ?R = [?r1, at_distance 20]"
    unfolding b0 lapRecords_def distanceMatched_def s
    by (simp add: in_window_def at_distance_def fadd_small)
  have m1: "lapRecords (?L ! 1) (lapBounds 0 ?L ! 1) ?R = []"
    unfolding b1 lapRecords_def distanceMatched_def s
    by (simp add: in_window_def at_distance_def fadd_small summary_lap_def)
  have h0: "{h. h > 0 \<and> (\<exists>r \<in> set [?r1, at_distance 20]. heart_rate r = Some h)} = {120}"
    by (auto simp: at_distance_def)
  from reconciler_one_stat_per_lap [of ?L ?R] obtain stats where
    st: "computeLapStats ?L ?R = Inr stats \<and> length stats = length ?L \<and>
     (\<forall>i < length ?L. \<forall>H.
        H = {h. h > 0 \<and> (\<exists>r \<in> set (lapRecords (?L ! i) (lapBounds 0 ?L ! i) ?R).
                            heart_rate r = Some h)} \<longrightarrow>
        lapNumber (stats ! i) = i + 1 \<and>
        totalDistance (stats ! i) = or_zero (total_distance (?L ! i)) \<and>
        elapsedTime (stats ! i) = elapsed (?L ! i) \<and>
        (\<forall>t. total_timer_time (?L ! i) = Some t \<and> t \<noteq> 0 \<longrightarrow> elapsedTime (stats ! i) = t) \<and>
        (total_timer_time (?L ! i) = None \<and>
         (start_time (?L ! i) = Undefined \<or> lap.timestamp (?L ! i) = Undefined) \<longrightarrow>
           elapsedTime (stats ! i) = 0 \<and> avgPace (stats ! i) = None) \<and>
        avgPace (stats ! i) =
          (if 0 < or_zero (total_distance (?L ! i)) \<and> 0 < elapsed (?L ! i)
           then Some (fmul (fdiv (elapsed (?L ! i)) (or_zero (total_distance (?L ! i)))) 1000)
           else None) \<and>
        (H = {} \<longrightarrow>
           minHR (stats ! i) = None \<and> timeToMinHR (stats ! i) = Null \<and>
           maxHR (stats ! i) = or_null (max_heart_rate (?L ! i)) \<and>
           avgHR (stats ! i) = or_null (avg_heart_rate (?L ! i))) \<and>
        (H \<noteq> {} \<longrightarrow>
           minHR (stats ! i) = Some (Min H) \<and> maxHR (stats ! i) = Some (Max H) \<and>
           avgHR (stats ! i) =
             Some (Math_round
                     (fdiv (foldl fadd 0
                              (hrValues (lapRecords (?L ! i) (lapBounds 0 ?L ! i) ?R)))
                        (of_nat (length
                              (hrValues (lapRecords (?L ! i) (lapBounds 0 ?L ! i) ?R)))))) \<and>
           timeToMinHR (stats ! i) \<noteq> Undefined)) \<and>
     (?L = [] \<longrightarrow> stats = [])" ..
  then have ok: "computeLapStats ?L ?R = Inr stats" and len: "length stats = length ?L"
    by (rule conjunct1, rule conjunct2 [THEN conjunct1])
  note per = st [THEN conjunct2, THEN conjunct2, THEN conjunct1, rule_format]
  have i0: "0 < length ?L" and i1: "1 < length ?L" by simp_all
  from per [OF i0 refl] have p0:
    "lapNumber (stats ! 0) = 1" "minHR (stats ! 0) = Some 120" "maxHR (stats ! 0) = Some 120"
    unfolding m0 h0 by simp_all
  from per [OF i1 refl] have p1:
    "lapNumber (stats ! 1) = 2" "minHR (stats ! 1) = None" "timeToMinHR (stats ! 1) = Null"
    "maxHR (stats ! 1) = Some 160" "avgHR (stats ! 1) = Some 140" "totalDistance (stats ! 1) = 50"
    "elapsedTime (stats ! 1) = 0" "avgPace (stats ! 1) = None"
    unfolding m1 by (simp_all add: summary_lap_def or_null_def or_zero_def)
  from len have l2: "length stats = 2" by simp
  then obtain x y where xy: "stats = [x, y]"
    by (auto simp: numeral_2_eq_2 length_Suc_conv)
  with p0(1) p1(1) have n: "map lapNumber stats = [1, 2]" by simp
  from ok l2 n p0(2,3) p1(2-) show ?thesis by (intro exI [of _ stats] conjI)
qed

subsection \<open>The time to the minimum heart rate\<close>

lemma ex_sorted: "sortedRecords [mk_sample 50 100 20, mk_sample 60 100 10] = [mk_sample 60 100 10, mk_sample 50 100 20]"
  by (simp add: sortedRecords_def mk_sample_def)

lemma ex_bound: "lapBounds 0 [mk_lap 0 100 100] ! 0 = \<lparr>start = 0, end' = 100\<rparr>"
  unfolding lapBounds_single by (simp add: mk_lap_def or_zero_def rnd_numeral)

lemma ex_dm: "distanceMatched \<lparr>start = 0, end' = 100\<rparr> [mk_sample 50 100 20, mk_sample 60 100 10]
   = [mk_sample 60 100 10, mk_sample 50 100 20]"
  unfolding distanceMatched_def ex_sorted
  by (simp add: in_window_def mk_sample_def fsub_def fadd_def rnd_numeral rnd_minus)

lemma ex_matched: "lapRecords (mk_lap 0 100 100) (lapBounds 0 [mk_lap 0 100 100] ! 0) [mk_sample 50 100 20, mk_sample 60 100 10]
   = [mk_sample 60 100 10, mk_sample 50 100 20]"
  unfolding lapRecords_def ex_bound ex_dm by simp

text \<open>
  Claim C1, as amended. For a lap whose matched records include a strictly positive heart
  rate, the time to the minimum heart rate comes from the first record, in the order of the
  lap's matched list, whose heart rate is the lap's minimum: its timestamp minus the lap's
  start time, rounded, and absent when either is absent (NaN when the start time is NaN).
  The matched list is in ascending distance (records of equal distance in input order) when
  the lap was matched by distance, and in input order when it was matched by timestamp.
\<close>

theorem timeToMinHR_first_in_matched_order:
  assumes "i < length laps"
      and "\<exists>r \<in> set (lapRecords (laps ! i) (lapBounds 0 laps ! i) records).
             \<exists>h. heart_rate r = Some h \<and> h > 0"
  shows "\<exists>stats pre m post mn.
           computeLapStats laps records = Inr stats \<and>
           lapRecords (laps ! i) (lapBounds 0 laps ! i) records = pre @ m # post \<and>
           mn = Min {h. h > 0 \<and> (\<exists>r \<in> set (lapRecords (laps ! i) (lapBounds 0 laps ! i) records).
                                     heart_rate r = Some h)} \<and>
           minHR (stats ! i) = Some mn \<and>
           heart_rate m = Some mn \<and>
           (\<forall>r \<in> set pre. heart_rate r \<noteq> Some mn) \<and>
           timeToMinHR (stats ! i) =
             (if sample.timestamp m \<noteq> None \<and> non_null (start_time (laps ! i))
              then (case ToNumber (start_time (laps ! i)) of
                      None \<Rightarrow> NaN
                    | Some s \<Rightarrow> Num (Math_round (fsub (the (sample.timestamp m)) s)))
              else Null) \<and>
           (lapRecords (laps ! i) (lapBounds 0 laps ! i) records =
              sort_key (\<lambda>r. the (distance r)) (filter (in_window (lapBounds 0 laps ! i)) records) \<or>
            lapRecords (laps ! i) (lapBounds 0 laps ! i) records =
              filter (in_time (laps ! i)) records)"
proof -
  let ?l = "laps ! i" and ?b = "lapBounds 0 laps ! i"
  obtain stats where ok: "computeLapStats laps records = Inr stats"
    using computeLapStats_ok by blast
  from assms(2) have "set (hrValues (lapRecords ?l ?b records)) \<noteq> {}"
    unfolding hrValues_set by blast
  then have ne: "hrValues (lapRecords ?l ?b records) \<noteq> []" by auto
  have ord: "lapRecords ?l ?b records = sort_key (\<lambda>r. the (distance r)) (filter (in_window ?b) records) \<or>
             lapRecords ?l ?b records = filter (in_time ?l) records"
    unfolding lapRecords_def Let_def distanceMatched_sort [symmetric] by simp
  from lapStat_minHR_time [OF ne, of i] obtain pre m post mn where
    f: "lapRecords ?l ?b records = pre @ m # post"
       "mn = Min (set (hrValues (lapRecords ?l ?b records)))"
       "minHR (lapStat ?l i ?b records) = Some mn"
       "heart_rate m = Some mn"
       "\<forall>r \<in> set pre. heart_rate r \<noteq> Some mn"
       "timeToMinHR (lapStat ?l i ?b records) =
             (if sample.timestamp m \<noteq> None \<and> non_null (start_time ?l)
              then (case ToNumber (start_time ?l) of
                      None \<Rightarrow> NaN
                    | Some s \<Rightarrow> Num (Math_round (fsub (the (sample.timestamp m)) s)))
              else Null)"
    by blast
  note n = computeLapStats_nth [OF ok assms(1)]
  from ok f(1) f(2) [unfolded hrValues_set] f(3-6) [folded n] ord
  show ?thesis by (intro exI [of _ stats] exI [of _ pre] exI [of _ m] exI [of _ post] exI [of _ mn] conjI)
qed

theorem timeToMinHR_first_in_matched_order_witness:
  "\<exists>stats pre m post.
      computeLapStats [mk_lap 0 100 100] [mk_sample 50 100 20, mk_sample 60 100 10] = Inr stats \<and>
      lapRecords (mk_lap 0 100 100) (lapBounds 0 [mk_lap 0 100 100] ! 0)
        [mk_sample 50 100 20, mk_sample 60 100 10] = pre @ m # post \<and>
      minHR (stats ! 0) = heart_rate m"
proof -
  have i: "(0::nat) < length [mk_lap 0 100 100]" by simp
  have h: "\<exists>r \<in> set (lapRecords ([mk_lap 0 100 100] ! 0) (lapBounds 0 [mk_lap 0 100 100] ! 0)
               [mk_sample 50 100 20, mk_sample 60 100 10]).
             \<exists>h. heart_rate r = Some h \<and> h > 0"
    unfolding nth_Cons_0 ex_matched by (simp add: mk_sample_def)
  from timeToMinHR_first_in_matched_order [OF i h] obtain stats pre m post mn where
    "computeLapStats [mk_lap 0 100 100] [mk_sample 50 100 20, mk_sample 60 100 10] = Inr stats"
    "lapRecords (mk_lap 0 100 100) (lapBounds 0 [mk_lap 0 100 100] ! 0)
        [mk_sample 50 100 20, mk_sample 60 100 10] = pre @ m # post"
    "minHR (stats ! 0) = Some mn" "heart_rate m = Some mn"
    unfolding nth_Cons_0 by blast
  then show ?thesis by (intro exI [of _ stats] exI [of _ pre] exI [of _ m] exI [of _ post] conjI) simp_all
qed

text \<open>
  Claim C1 as stated fails: with two matched records of the same minimal heart rate given in
  descending distance, the source takes the one of smaller distance (timestamp 60), not the
  first in input order (timestamp 50).
\<close>

theorem timeToMinHR_input_order_counterexample:
  "computeLapStats [mk_lap 0 100 100] [mk_sample 50 100 20, mk_sample 60 100 10] =
     Inr [\<lparr>lapNumber = 1, totalDistance = 100, avgPace = Some 1000, minHR = Some 100,
           maxHR = Some 100, avgHR = Some 100, timeToMinHR = Num 60, elapsedTime = 100\<rparr>] \<and>
   timeToMinHR_inputOrder (mk_lap 0 100 100) (lapBounds 0 [mk_lap 0 100 100] ! 0)
      [mk_sample 50 100 20, mk_sample 60 100 10] = Num 50"
proof -
  have v: "hrValues [mk_sample 60 100 10, mk_sample 50 100 20] = [100, 100]"
    by (simp add: hrValues_def hrRecords_def mk_sample_def)
  have h: "hrRecords [mk_sample 60 100 10, mk_sample 50 100 20] = [mk_sample 60 100 10, mk_sample 50 100 20]"
    by (simp add: hrRecords_def mk_sample_def)
  have e: "elapsed (mk_lap 0 100 100) = 100"
    by (simp add: elapsed_def mk_lap_def fsub_def rnd_numeral)
  have s: "lapStat (mk_lap 0 100 100) 0 (lapBounds 0 [mk_lap 0 100 100] ! 0)
             [mk_sample 50 100 20, mk_sample 60 100 10] =
           \<lparr>lapNumber = 1, totalDistance = 100, avgPace = Some 1000, minHR = Some 100,
            maxHR = Some 100, avgHR = Some 100, timeToMinHR = Num 60, elapsedTime = 100\<rparr>"
    unfolding lapStat_def Let_def ex_matched v h e
    by (simp add: mk_sample_def Math_round_def fadd_def fsub_def fdiv_def fmul_def rnd_numeral)
       (simp add: mk_lap_def or_zero_def fsub_def rnd_numeral Math_round_def)
  have a: "computeLapStats [mk_lap 0 100 100] [mk_sample 50 100 20, mk_sample 60 100 10] =
     Inr [\<lparr>lapNumber = 1, totalDistance = 100, avgPace = Some 1000, minHR = Some 100,
           maxHR = Some 100, avgHR = Some 100, timeToMinHR = Num 60, elapsedTime = 100\<rparr>]"
    unfolding computeLapStats_ok by (simp add: s del: lapBounds.simps)
  have b: "timeToMinHR_inputOrder (mk_lap 0 100 100) (lapBounds 0 [mk_lap 0 100 100] ! 0)
      [mk_sample 50 100 20, mk_sample 60 100 10] = Num 50"
    unfolding timeToMinHR_inputOrder_def Let_def ex_matched v
    by (simp add: mk_sample_def mk_lap_def Math_round_def fsub_def rnd_numeral)
  from a b show ?thesis by simp
qed

section \<open>Properties of the JSON adapter\<close>

lemma in_time_Num:
  "start_time L = Num s \<Longrightarrow> lap.timestamp L = Num e \<Longrightarrow>
   in_time L r \<longleftrightarrow> (\<exists>t. sample.timestamp r = Some t \<and> s \<le> t \<and> t \<le> e)"
  by (simp add: in_time_def ge_val_def le_val_def split: option.splits)

lemma in_time_NaN: "start_time L = NaN \<Longrightarrow> \<not> in_time L r"
  by (simp add: in_time_def ge_val_def split: option.splits)

text \<open>
  Claim C10, as amended. The lap's \<open>total_timer_time\<close> is the duration (falling back to the
  elapsed duration, then 0). The lap's start time is a number when the row's wall-clock
  string parses, or when there is no such string and the row has its start in seconds; the
  end timestamp is then the rounded sum of that start and the duration, and the timestamp
  window of the reconciler's fallback is from the start to that sum. When the string does
  not parse, both timestamps are NaN and no record is in the window. When the row has
  neither, the lap has no start time, its end timestamp is the duration alone (rounded,
  which leaves a double as it is), and the fallback never fires.
\<close>

theorem json_lap_end_is_start_plus_duration:
  "total_timer_time (jsonLap getTime l) = Some (or_or_zero (duration l) (elapsedDuration l)) \<and>
   (\<forall>s. start_time (jsonLap getTime l) = Num s \<longleftrightarrow>
      (\<exists>g ms. startTimeGMT l = Some g \<and> getTime g = Some ms \<and> s = fdiv ms 1000) \<or>
      startTimeGMT l = None \<and> startTimeInSeconds l = Num s) \<and>
   (\<forall>s. start_time (jsonLap getTime l) = Num s \<longrightarrow>
      lap.timestamp (jsonLap getTime l) =
        Num (fadd s (or_or_zero (duration l) (elapsedDuration l))) \<and>
      (\<forall>r. in_time (jsonLap getTime l) r \<longleftrightarrow>
         (\<exists>t. sample.timestamp r = Some t \<and> s \<le> t \<and>
              t \<le> fadd s (or_or_zero (duration l) (elapsedDuration l))))) \<and>
   (\<forall>g. startTimeGMT l = Some g \<and> getTime g = None \<longrightarrow>
      start_time (jsonLap getTime l) = NaN \<and> lap.timestamp (jsonLap getTime l) = NaN \<and>
      (\<forall>r. \<not> in_time (jsonLap getTime l) r)) \<and>
   (startTimeGMT l = None \<and> \<not> non_null (startTimeInSeconds l) \<longrightarrow>
      start_time (jsonLap getTime l) = startTimeInSeconds l \<and>
      lap.timestamp (jsonLap getTime l) = Num (rnd (or_or_zero (duration l) (elapsedDuration l))) \<and>
      (\<forall>b records. lapRecords (jsonLap getTime l) b records = distanceMatched b records))"
proof -
  let ?d = "or_or_zero (duration l) (elapsedDuration l)"
  let ?L = "jsonLap getTime l"
  have a: "total_timer_time ?L = Some ?d"
    by (simp add: jsonLap_def)
  have b: "start_time ?L = Num s \<longleftrightarrow>
      (\<exists>g ms. startTimeGMT l = Some g \<and> getTime g = Some ms \<and> s = fdiv ms 1000) \<or>
      startTimeGMT l = None \<and> startTimeInSeconds l = Num s" for s
    by (auto simp: jsonLap_def split: option.splits)
  have c: "lap.timestamp ?L = Num (fadd s ?d) \<and>
      (\<forall>r. in_time ?L r \<longleftrightarrow> (\<exists>t. sample.timestamp r = Some t \<and> s \<le> t \<and> t \<le> fadd s ?d))"
    if s: "start_time ?L = Num s" for s
  proof -
    from s have "lap.timestamp ?L = Num (fadd s ?d)"
      by (auto simp: jsonLap_def split: option.splits)
    with s in_time_Num [of ?L s "fadd s ?d"] show ?thesis by blast
  qed
  have d: "start_time ?L = NaN \<and> lap.timestamp ?L = NaN \<and> (\<forall>r. \<not> in_time ?L r)"
    if "startTimeGMT l = Some g \<and> getTime g = None" for g
  proof -
    from that have "start_time ?L = NaN" "lap.timestamp ?L = NaN"
      by (simp_all add: jsonLap_def)
    with in_time_NaN [of ?L] show ?thesis by blast
  qed
  have e: "start_time ?L = startTimeInSeconds l \<and> lap.timestamp ?L = Num (rnd ?d) \<and>
      (\<forall>b records. lapRecords ?L b records = distanceMatched b records)"
    if "startTimeGMT l = None \<and> \<not> non_null (startTimeInSeconds l)"
  proof -
    from that have n: "startTimeGMT l = None" "startTimeInSeconds l = Undefined \<or> startTimeInSeconds l = Null"
      by (cases "startTimeInSeconds l"; simp)+
    then have "start_time ?L = startTimeInSeconds l" "lap.timestamp ?L = Num (rnd ?d)"
      by (auto simp: jsonLap_def fadd_def)
    moreover from this(1) that have "lapRecords ?L b records = distanceMatched b records" for b records
      by (simp add: lapRecords_def)
    ultimately show ?thesis by blast
  qed
  from a b c d e show ?thesis by blast
qed

lemma rnd_60: "rnd 60 = 60" "rnd 1060 = 1060"
  by (simp_all add: rnd_numeral)

theorem json_lap_end_is_start_plus_duration_witness:
  "start_time (jsonLap (\<lambda>s. None) (dto0\<lparr>startTimeInSeconds := Num 1000\<rparr>)) = Num 1000 \<and>
   lap.timestamp (jsonLap (\<lambda>s. None) (dto0\<lparr>startTimeInSeconds := Num 1000\<rparr>)) = Num 1060 \<and>
   start_time (jsonLap (\<lambda>s. None) (dto0\<lparr>startTimeGMT := Some ''never''\<rparr>)) = NaN \<and>
   lap.timestamp (jsonLap (\<lambda>s. None) (dto0\<lparr>startTimeGMT := Some ''never''\<rparr>)) = NaN \<and>
   start_time (jsonLap (\<lambda>s. None) dto0) = Undefined \<and>
   lap.timestamp (jsonLap (\<lambda>s. None) dto0) = Num 60 \<and>
   start_time (jsonLap (\<lambda>s. Some 1700000000000) (dto0\<lparr>startTimeGMT := Some ''2023-11-14T22:13:20Z''\<rparr>))
     = Num 1700000000 \<and>
   lap.timestamp (jsonLap (\<lambda>s. Some 1700000000000) (dto0\<lparr>startTimeGMT := Some ''2023-11-14T22:13:20Z''\<rparr>))
     = Num 1700000060"
proof -
  let ?a = "dto0\<lparr>startTimeInSeconds := Num 1000\<rparr>"
  let ?b = "dto0\<lparr>startTimeGMT := Some ''never''\<rparr>"
  have d: "or_or_zero (duration dto0) (elapsedDuration dto0) = 60"
    "or_or_zero (duration ?a) (elapsedDuration ?a) = 60"
    by (simp_all add: dto0_def or_or_zero_def or_null_def)
  note ta = json_lap_end_is_start_plus_duration [of "\<lambda>s. None" ?a]
  have sa: "start_time (jsonLap (\<lambda>s. None) ?a) = Num 1000"
    using ta [THEN conjunct2, THEN conjunct1, rule_format, of 1000] by (simp add: dto0_def)
  from ta [THEN conjunct2, THEN conjunct2, THEN conjunct1, rule_format, OF sa]
  have ea: "lap.timestamp (jsonLap (\<lambda>s. None) ?a) = Num 1060"
    by (simp add: d fadd_def rnd_60)
  note tb = json_lap_end_is_start_plus_duration [of "\<lambda>s. None" ?b]
  from tb [THEN conjunct2, THEN conjunct2, THEN conjunct2, THEN conjunct1, rule_format, of "''never''"]
  have nb: "start_time (jsonLap (\<lambda>s. None) ?b) = NaN" "lap.timestamp (jsonLap (\<lambda>s. None) ?b) = NaN"
    by (simp_all add: dto0_def)
  note t0 = json_lap_end_is_start_plus_duration [of "\<lambda>s. None" dto0]
  from t0 [THEN conjunct2, THEN conjunct2, THEN conjunct2, THEN conjunct2]
  have n0: "start_time (jsonLap (\<lambda>s. None) dto0) = Undefined"
    "lap.timestamp (jsonLap (\<lambda>s. None) dto0) = Num 60"
    by (simp_all add: d rnd_60) (simp_all add: dto0_def)
  let ?c = "dto0\<lparr>startTimeGMT := Some ''2023-11-14T22:13:20Z''\<rparr>"
  have q: "fdiv 1700000000000 1000 = 1700000000" "fadd 1700000000 60 = 1700000060"
    by (simp_all add: fdiv_def fadd_def rnd_numeral)
  note tc = json_lap_end_is_start_plus_duration [of "\<lambda>s. Some 1700000000000" ?c]
  have sc: "start_time (jsonLap (\<lambda>s. Some 1700000000000) ?c) = Num 1700000000"
    using tc [THEN conjunct2, THEN conjunct1, rule_format, of 1700000000] by (simp add: q)
  from tc [THEN conjunct2, THEN conjunct2, THEN conjunct1, rule_format, OF sc]
  have ec: "lap.timestamp (jsonLap (\<lambda>s. Some 1700000000000) ?c) = Num 1700000060"
    by (simp add: d q)
  from sa ea nb n0 sc ec show ?thesis by simp
qed

lemma rnd_end_example: "rnd (1700000000 + (60 + 1 / 2 ^ 30)) = 1700000060"
  by (subst rnd_eval [of 30]) (simp_all add: round_even_def Let_def power_int_minus)

text \<open>
  Claim C10 as stated fails. A row with neither start gives a lap with no start time and the
  end timestamp 60, its duration. A row with the start 1700000000 and the duration
  \<open>60 + 2^-30\<close> gives the end timestamp 1700000060, the rounded sum: the end minus the
  start is 60, which is not the lap's \<open>total_timer_time\<close>.
\<close>

theorem json_lap_end_counterexample:
  "start_time (jsonLap (\<lambda>s. None) dto0) = Undefined \<and>
   lap.timestamp (jsonLap (\<lambda>s. None) dto0) = Num 60 \<and>
   total_timer_time (jsonLap (\<lambda>s. None) dto0) = Some 60 \<and>
   start_time (jsonLap (\<lambda>s. None)
     (dto0\<lparr>startTimeInSeconds := Num 1700000000, duration := Some (60 + 1 / 2 ^ 30)\<rparr>)) =
     Num 1700000000 \<and>
   lap.timestamp (jsonLap (\<lambda>s. None)
     (dto0\<lparr>startTimeInSeconds := Num 1700000000, duration := Some (60 + 1 / 2 ^ 30)\<rparr>)) =
     Num 1700000060 \<and>
   total_timer_time (jsonLap (\<lambda>s. None)
     (dto0\<lparr>startTimeInSeconds := Num 1700000000, duration := Some (60 + 1 / 2 ^ 30)\<rparr>)) =
     Some (60 + 1 / 2 ^ 30) \<and>
   fsub 1700000060 1700000000 = 60"
proof -
  have a: "start_time (jsonLap (\<lambda>s. None) dto0) = Undefined"
    "lap.timestamp (jsonLap (\<lambda>s. None) dto0) = Num 60"
    "total_timer_time (jsonLap (\<lambda>s. None) dto0) = Some 60"
    by (simp_all add: jsonLap_def dto0_def or_or_zero_def or_null_def fadd_def rnd_60)
  let ?l = "dto0\<lparr>startTimeInSeconds := Num 1700000000, duration := Some (60 + 1 / 2 ^ 30)\<rparr>"
  have d: "or_or_zero (duration ?l) (elapsedDuration ?l) = 60 + 1 / 2 ^ 30"
    by (simp add: dto0_def or_or_zero_def or_null_def)
  have b: "start_time (jsonLap (\<lambda>s. None) ?l) = Num 1700000000"
    "total_timer_time (jsonLap (\<lambda>s. None) ?l) = Some (60 + 1 / 2 ^ 30)"
    unfolding jsonLap_def d by (simp_all add: dto0_def)
  have c: "lap.timestamp (jsonLap (\<lambda>s. None) ?l) = Num 1700000060"
    unfolding jsonLap_def d fadd_def
    using rnd_end_example by (simp add: dto0_def)
  have e: "fsub 1700000060 1700000000 = 60"
    by (simp add: fsub_def rnd_60)
  from a b c e show ?thesis by simp
qed

section \<open>Properties of the archive extractor\<close>

lemma cdLoop_first_match:
  "directory zipBytes off n = pre @ e # post \<Longrightarrow>
   \<forall>x \<in> set pre. \<not> endsWith_fit (cdEntry.name x) \<Longrightarrow> endsWith_fit (cdEntry.name e) \<Longrightarrow>
   cdLoop inflateRaw zipBytes n off = extractEntry inflateRaw zipBytes e"
proof (induction n arbitrary: off pre)
  case 0
  then show ?case by simp
next
  case (Suc n)
  show ?case
  proof (cases "readEntry zipBytes off")
    case (Inl err)
    with Suc.prems(1) show ?thesis by simp
  next
    case (Inr x)
    with Suc.prems(1) have d: "x # directory zipBytes (nextOffset x) n = pre @ e # post" by simp
    show ?thesis
    proof (cases pre)
      case Nil
      with d have "x = e" by simp
      with Inr Suc.prems(3) show ?thesis by simp
    next
      case (Cons y ys)
      with d have x: "x = y" and r: "directory zipBytes (nextOffset x) n = ys @ e # post" by auto
      from Cons Suc.prems(2) x have n: "\<not> endsWith_fit (cdEntry.name x)" and ys: "\<forall>x \<in> set ys. \<not> endsWith_fit (cdEntry.name x)"
        by simp_all
      from Suc.IH [OF r ys Suc.prems(3)] Inr n show ?thesis by simp
    qed
  qed
qed

lemma endsWith_fit_suffix:
  "map toLowerCase [a, b, c, d] = [0x2E, 0x66, 0x69, 0x74] \<Longrightarrow> endsWith_fit (nm @ [a, b, c, d])"
  by (simp add: endsWith_fit_def)

text \<open>
  Claim C9. When the first entry of the central directory, in directory order, whose name
  ends with \<^verbatim>\<open>.fit\<close> in either case is \<open>e\<close>, the extractor's result is decided by \<open>e\<close>
  alone: its stored bytes for method 0, their decompression for method 8, the error for its
  own method otherwise. Nothing is assumed of the entries after \<open>e\<close>: they are never read.
  A name ending in \<^verbatim>\<open>.FIT\<close> matches as one ending in \<^verbatim>\<open>.fit\<close> does.
\<close>

theorem extract_first_matching_entry:
  assumes "findEocd zipBytes = Some eocdOffset"
      and "getUint32 zipBytes (eocdOffset + 16) True = Inr cdOffset"
      and "getUint16 zipBytes (eocdOffset + 10) True = Inr cdEntries"
      and "directory zipBytes cdOffset cdEntries = pre @ e # post"
      and "\<forall>x \<in> set pre. \<not> endsWith_fit (cdEntry.name x)"
      and "endsWith_fit (cdEntry.name e)"
      and "getUint16 zipBytes (localOffset e + 26) True = Inr localNameLen"
      and "getUint16 zipBytes (localOffset e + 28) True = Inr localExtraLen"
      and "payload = slice zipBytes (localOffset e + 30 + localNameLen + localExtraLen)
             (localOffset e + 30 + localNameLen + localExtraLen + compSize e)"
  shows "extractFitFromZip inflateRaw zipBytes =
           (if method' e = 0 then Inr payload
            else if method' e = 8 then inflateRaw payload
            else Inl (UnsupportedCompression (method' e))) \<and>
         endsWith_fit (nm @ [0x2E, 0x46, 0x49, 0x54]) \<and>
         endsWith_fit (nm @ [0x2E, 0x66, 0x69, 0x74])"
proof -
  have c: "endsWith_fit (nm @ [0x2E, 0x46, 0x49, 0x54])" "endsWith_fit (nm @ [0x2E, 0x66, 0x69, 0x74])"
    by (simp_all add: endsWith_fit_suffix toLowerCase_def)
  from assms(1-3) have "extractFitFromZip inflateRaw zipBytes = cdLoop inflateRaw zipBytes cdEntries cdOffset"
    by (simp add: extractFitFromZip_def)
  also from cdLoop_first_match [OF assms(4-6)]
  have "\<dots> = extractEntry inflateRaw zipBytes e" .
  also from assms(7-9) have "\<dots> = (if method' e = 0 then Inr payload
            else if method' e = 8 then inflateRaw payload
            else Inl (UnsupportedCompression (method' e)))"
    by (simp add: extractEntry_def Let_def)
  finally show ?thesis using c by simp
qed

lemma eocdScan_unfold:
  "0 < k \<Longrightarrow> eocdScan zipBytes lo k =
     (if getUint32 zipBytes (lo + (k - 1)) True = Inr 0x06054b50 then Some (lo + (k - 1))
      else eocdScan zipBytes lo (k - 1))"
  by (cases k) simp_all

lemma zip2_length: "length zip2 = 198"
  by (simp add: zip2_def)

lemma zip2_eocd: "findEocd zip2 = Some 176"
  unfolding findEocd_def zip2_length
  by (simp add: eocdScan_unfold [of 177] getUint_def zip2_length) (simp add: zip2_def le_nat_def)

lemma zip2_cd: "getUint32 zip2 (176 + 16) True = Inr 74" "getUint16 zip2 (176 + 10) True = Inr 2"
  by (simp_all add: getUint_def zip2_length) (simp_all add: zip2_def le_nat_def)

lemma zip2_e1: "readEntry zip2 74 = Inr \<lparr>method' = 0, compSize = 3, cdEntry.name = [0x41, 0x2E, 0x46, 0x49, 0x54],
     localOffset = 0, nextOffset = 125\<rparr>"
  by (simp add: readEntry_def getUint_def zip2_length slice_def) (simp add: zip2_def le_nat_def)

lemma zip2_e2: "readEntry zip2 125 = Inr \<lparr>method' = 99, compSize = 1, cdEntry.name = [0x62, 0x2E, 0x66, 0x69, 0x74],
     localOffset = 38, nextOffset = 176\<rparr>"
  by (simp add: readEntry_def getUint_def zip2_length slice_def) (simp add: zip2_def le_nat_def)

lemma zip2_directory: "directory zip2 74 2 =
   [] @ \<lparr>method' = 0, compSize = 3, cdEntry.name = [0x41, 0x2E, 0x46, 0x49, 0x54], localOffset = 0, nextOffset = 125\<rparr>
     # [\<lparr>method' = 99, compSize = 1, cdEntry.name = [0x62, 0x2E, 0x66, 0x69, 0x74], localOffset = 38, nextOffset = 176\<rparr>]"
  by (simp add: numeral_2_eq_2 zip2_e1 zip2_e2)

theorem extract_first_matching_entry_witness:
  "extractFitFromZip Inr zip2 = Inr [1, 2, 3]"
proof -
  let ?e = "\<lparr>method' = 0, compSize = 3, cdEntry.name = [0x41, 0x2E, 0x46, 0x49, 0x54], localOffset = 0, nextOffset = 125\<rparr>"
  have m: "endsWith_fit (cdEntry.name ?e)"
    by (simp add: endsWith_fit_def toLowerCase_def)
  have l: "getUint16 zip2 (localOffset ?e + 26) True = Inr 5" "getUint16 zip2 (localOffset ?e + 28) True = Inr 0"
    by (simp_all add: getUint_def zip2_length) (simp_all add: zip2_def le_nat_def)
  have p: "[1, 2, 3] = slice zip2 (localOffset ?e + 30 + 5 + 0) (localOffset ?e + 30 + 5 + 0 + compSize ?e)"
    by (simp add: slice_def zip2_def)
  have n: "\<forall>x \<in> set []. \<not> endsWith_fit (cdEntry.name x)" by simp
  from extract_first_matching_entry [OF zip2_eocd zip2_cd zip2_directory n m l p, of Inr]
  show ?thesis by simp
qed

section \<open>Properties of the protocol decoder\<close>

subsection \<open>Compressed timestamps\<close>

lemma ToInt32_mask: "ToInt32 (js_not 0x1F) = ToInt32 0xFFFFFFE0"
  by (simp add: js_not_def ToInt32_def)

lemma js_and_not: "js_and T (js_not 0x1F) = js_and T 0xFFFFFFE0"
  unfolding js_and_def ToInt32_mask ..

lemma ToInt32_of_int: "ToInt32 (of_int n) = word_of_int n"
  by (simp add: ToInt32_def)

lemma int_low5: "(n::int) AND 31 = n mod 32"
proof -
  have "(n::int) AND mask 5 = n mod 2 ^ 5"
    by (simp only: take_bit_eq_mask [symmetric] take_bit_eq_mod)
  then show ?thesis by (simp add: mask_eq_exp_minus_1)
qed

lemma nat_low5: "(h::nat) AND 31 = h mod 32"
proof -
  have "(h::nat) AND mask 5 = h mod 2 ^ 5"
    by (simp only: take_bit_eq_mask [symmetric] take_bit_eq_mod)
  then show ?thesis by (simp add: mask_eq_exp_minus_1)
qed

lemma int_high27: "(n::int) AND - 32 = n - n mod 32"
proof -
  have "(n::int) AND NOT (mask 5) = push_bit 5 (drop_bit 5 n)"
    by (rule bit_eqI) (auto simp: bit_simps)
  also have "\<dots> = 32 * (n div 32)"
    by (simp add: push_bit_eq_mult drop_bit_eq_div)
  also have "\<dots> = n - n mod 32"
    by (simp add: minus_mod_eq_mult_div [symmetric])
  finally show ?thesis by (simp add: minus_exp_eq_not_mask [of 5, symmetric])
qed

lemma sint_small: "0 \<le> k \<Longrightarrow> k < 2 ^ 31 \<Longrightarrow> sint (word_of_int k :: 32 word) = k"
  by (simp add: sint_sbintrunc' signed_take_bit_int_eq_self)

lemma low5: 
  assumes "0 \<le> n" "n < 2 ^ 31"
  shows "sint ((word_of_int n :: 32 word) AND 0x1F) = n mod 32"
proof -
  have "(word_of_int n :: 32 word) AND 0x1F = word_of_int (n AND 31)"
    by (simp add: of_int_and_eq)
  moreover have "0 \<le> n mod 32" "n mod 32 < 2 ^ 31"
    by (simp, rule less_trans [of _ 32], simp_all)
  ultimately show ?thesis by (simp add: int_low5 sint_small)
qed

lemma high27:
  assumes "0 \<le> n" "n < 2 ^ 31"
  shows "sint ((word_of_int n :: 32 word) AND 0xFFFFFFE0) = n - n mod 32"
proof -
  have "(0xFFFFFFE0 :: 32 word) = word_of_int (- 32)" by simp
  moreover have "word_of_int n AND word_of_int (- 32) = (word_of_int (n AND - 32) :: 32 word)"
    by (rule of_int_and_eq [symmetric])
  ultimately have e: "(word_of_int n :: 32 word) AND 0xFFFFFFE0 = word_of_int (n - n mod 32)"
    by (simp only: int_high27)
  have "0 \<le> n - n mod 32" "n - n mod 32 < 2 ^ 31"
    using assms by (simp_all add: minus_mod_eq_mult_div)
  then show ?thesis unfolding e by (rule sint_small)
qed

lemma js_and_low5:
  assumes "0 \<le> n" "n < 2 ^ 31"
  shows "js_and (of_int n) 0x1F = of_int (n mod 32)"
proof -
  have "js_and (of_int n) 0x1F = of_int (sint ((word_of_int n :: 32 word) AND 0x1F))"
    unfolding js_and_def ToInt32_of_int by (simp add: ToInt32_def)
  also have "\<dots> = of_int (n mod 32)"
    using assms by (simp only: low5)
  finally show ?thesis .
qed

lemma js_and_high27:
  assumes "0 \<le> n" "n < 2 ^ 31"
  shows "js_and (of_int n) 0xFFFFFFE0 = of_int (n - n mod 32)"
proof -
  have "js_and (of_int n) 0xFFFFFFE0 = of_int (sint ((word_of_int n :: 32 word) AND 0xFFFFFFE0))"
    unfolding js_and_def ToInt32_of_int by (simp add: ToInt32_def)
  also have "\<dots> = of_int (n - n mod 32)"
    using assms by (simp only: high27)
  finally show ?thesis .
qed

text \<open>Sums of integers below \<open>2^53\<close> are exact.\<close>

lemma fadd_of_int: "\<bar>a + b\<bar> \<le> 2 ^ 53 \<Longrightarrow> fadd (of_int a) (of_int b) = of_int (a + b)"
  using rnd_of_int [of "a + b"] by (simp add: fadd_def)

text \<open>The fields are read without a look at the last timestamp.\<close>

lemma readField_lastTimestamp:
  "readField fl field le (p\<lparr>lastTimestamp := t\<rparr>) =
     (case readField fl field le p of (r, p') \<Rightarrow> (r, p'\<lparr>lastTimestamp := t\<rparr>))"
  by (simp add: readField_def Let_def split: option.splits sum.splits)

lemma readFields_lastTimestamp:
  "readFields fl le pf fs m (p\<lparr>lastTimestamp := t\<rparr>) =
     (case readFields fl le pf fs m p of (r, p') \<Rightarrow> (r, p'\<lparr>lastTimestamp := t\<rparr>))"
proof (induction fs arbitrary: m p)
  case Nil
  show ?case by simp
next
  case (Cons f fs)
  obtain x q where q: "readField fl f le p = (x, q)" by (cases "readField fl f le p")
  show ?case
  proof (cases x)
    case (Inl e)
    with q show ?thesis by (simp add: readField_lastTimestamp)
  next
    case (Inr v)
    with q Cons.IH show ?thesis by (simp add: readField_lastTimestamp)
  qed
qed

lemma readFields_keeps_lastTimestamp:
  assumes "readFields fl le pf fs m p = (r, p')"
  shows "lastTimestamp p' = lastTimestamp p"
proof -
  have "p\<lparr>lastTimestamp := lastTimestamp p\<rparr> = p" by simp
  with readFields_lastTimestamp [where p = p and t = "lastTimestamp p" and fl = fl and le = le
      and pf = pf and fs = fs and m = m] assms
  have "(r, p') = (r, p'\<lparr>lastTimestamp := lastTimestamp p\<rparr>)" by simp
  then have "p' = p'\<lparr>lastTimestamp := lastTimestamp p\<rparr>" by simp
  then have "lastTimestamp p' = lastTimestamp (p'\<lparr>lastTimestamp := lastTimestamp p\<rparr>)"
    by (rule arg_cong)
  then show ?thesis by simp
qed

text \<open>
  The running timestamp after a data message without a compressed timestamp: the timestamp
  of the message when it has one, and unchanged otherwise. Only the profiles of the
  \<^verbatim>\<open>lap\<close> and \<^verbatim>\<open>record\<close> messages name a field \<^verbatim>\<open>timestamp\<close>.
\<close>

lemma running_timestamp_plain:
  assumes "definitions p localType = Some d"
      and "readFields fl (littleEndian d)
             (case FIT_FIELDS (globalMsgNum d) of None \<Rightarrow> Map.empty | Some pf \<Rightarrow> pf)
             (fields' d) Map.empty p = (Inr m, p1)"
  shows "\<exists>p'. parseDataMessage fl localType None p = (Inr (), p') \<and>
           lastTimestamp p' = (case m ''timestamp'' of None \<Rightarrow> lastTimestamp p | Some t \<Rightarrow> t)"
  using assms readFields_keeps_lastTimestamp [OF assms(2)]
  by (cases "FIT_MSG_NAMES (globalMsgNum d)"; cases "m ''timestamp''")
     (simp_all add: parseDataMessage_def bindS_def Let_def)

lemma timestamp_profiles:
  "FIT_FIELDS g = Some pf \<Longrightarrow> pf n = Some pr \<Longrightarrow> name pr = ''timestamp'' \<Longrightarrow>
   (g = 19 \<or> g = 20) \<and> n = 253"
  by (auto simp: FIT_FIELDS_def split: if_splits)

text \<open>
  Claim C3, as amended. \<open>T\<close> is the decoder's running timestamp: the timestamp of the last
  message that was decoded with one, 0 at the start. For an integer \<open>T\<close> with
  \<open>0 \<le> T < 2^31\<close>, \<open>T & 0x1F\<close> is \<open>T mod 32\<close> and \<open>T & ~0x1F\<close> is \<open>T - T mod 32\<close>. A record
  whose control byte has the high bit set, with the offset \<open>O\<close> in its low five bits, and
  whose fields are decoded without an explicit timestamp, is stored with the timestamp
  \<open>(T & ~0x1F) + O + 32\<close> when \<open>O < T & 0x1F\<close> and \<open>(T & ~0x1F) + O\<close> otherwise: the one value
  from \<open>T\<close> to \<open>T + 31\<close> whose low five bits are \<open>O\<close>. It becomes the running timestamp.
\<close>

theorem compressed_timestamp:
  assumes "getUint8 (bytes p) (offset p) = Inr header"
      and "header AND 0x80 \<noteq> 0"
      and "definitions p (drop_bit 5 header AND 0x03) = Some d"
      and "readFields fl (littleEndian d)
             (case FIT_FIELDS (globalMsgNum d) of None \<Rightarrow> Map.empty | Some pf \<Rightarrow> pf)
             (fields' d) Map.empty (p\<lparr>offset := offset p + 1\<rparr>) = (Inr m, p1)"
      and "m ''timestamp'' = None"
      and "lastTimestamp p = of_int T" and "0 \<le> T" and "T < 2 ^ 31"
      and "Ofs = int (header AND 0x1F)"
      and "ts = (if Ofs < T mod 32 then T - T mod 32 + Ofs + 32 else T - T mod 32 + Ofs)"
  shows "js_and (of_int T) 0x1F = of_int (T mod 32) \<and>
         js_and (of_int T) (js_not 0x1F) = of_int (T - T mod 32) \<and>
         (\<exists>p'. parseRecord fl p = (Inr (), p') \<and>
            lastTimestamp p' = of_int ts \<and>
            (\<forall>typeName. FIT_MSG_NAMES (globalMsgNum d) = Some typeName \<longrightarrow>
               messages p' typeName =
                 Some ((case messages p typeName of None \<Rightarrow> [] | Some ms \<Rightarrow> ms)
                       @ [m(''timestamp'' \<mapsto> of_int ts)]))) \<and>
         T \<le> ts \<and> ts < T + 32 \<and> ts mod 32 = Ofs"
proof -
  note l = js_and_low5 [OF assms(7,8)]
  note h = js_and_high27 [OF assms(7,8)]
  have h': "js_and (of_int T) (js_not 0x1F) = of_int (T - T mod 32)"
    unfolding js_and_not by (rule h)
  have "header AND 0x1F \<le> 31" by (simp add: nat_low5)
  with assms(9) have o: "0 \<le> Ofs" "Ofs \<le> 31" by simp_all
  have m: "0 \<le> T mod 32" "T mod 32 < 32" by simp_all
  have hi: "0 \<le> T - T mod 32" "T - T mod 32 \<le> T"
    using assms(7) by (simp_all add: minus_mod_eq_mult_div)
  have rng: "T \<le> ts \<and> ts < T + 32"
    using assms(10) o m by (simp split: if_splits)
  have "(T - T mod 32) mod 32 = 0"
    by (simp add: minus_mod_eq_mult_div)
  then have md: "ts mod 32 = Ofs"
    using assms(10) o by (cases "Ofs < T mod 32") (simp_all add: mod_add_eq [symmetric, of "T - T mod 32"])
  let ?tO = "of_nat (header AND 0x1F) :: real"
  have tO: "?tO = of_int Ofs" by (simp add: assms(9))
  have s1: "fadd (of_int (T - T mod 32)) ?tO = of_int (T - T mod 32 + Ofs)"
    unfolding tO using hi o assms(8) by (intro fadd_of_int) simp
  have s2: "fadd (of_int (T - T mod 32 + Ofs)) 0x20 = of_int (T - T mod 32 + Ofs + 32)"
    using fadd_of_int [of "T - T mod 32 + Ofs" 32] hi o assms(8) by simp
  have lt: "?tO < of_int (T mod 32) \<longleftrightarrow> Ofs < T mod 32"
    unfolding tO by (rule of_int_less_iff)
  let ?ts = "of_int ts :: real"
  let ?q = "p\<lparr>offset := offset p + 1, lastTimestamp := ?ts\<rparr>"
  let ?X = "let timeOffset = ?tO;
                prev = lastTimestamp p;
                ts = fadd (js_and prev 0xFFFFFFE0) timeOffset
            in if timeOffset < js_and prev 0x1F then fadd ts 0x20 else ts"
  have X: "?X = ?ts"
    unfolding Let_def assms(6) l h s1 s2 lt assms(10) by simp
  have "parseRecord fl p =
           parseDataMessage fl (drop_bit 5 header AND 0x03) (Some ?X)
             (p\<lparr>offset := offset p + 1, lastTimestamp := ?X\<rparr>)"
    using assms(1,2)
    by (simp add: parseRecord_def bindS_def nextUint8_def Let_def)
  then have e: "parseRecord fl p =
           parseDataMessage fl (drop_bit 5 header AND 0x03) (Some ?ts) ?q"
    unfolding X .
  let ?pf = "case FIT_FIELDS (globalMsgNum d) of None \<Rightarrow> Map.empty | Some pf \<Rightarrow> pf"
  have rf: "readFields fl (littleEndian d) ?pf (fields' d) Map.empty ?q =
              (Inr m, p1\<lparr>lastTimestamp := ?ts\<rparr>)"
    using readFields_lastTimestamp [where p = "p\<lparr>offset := offset p + 1\<rparr>" and t = ?ts
        and fl = fl and le = "littleEndian d" and pf = ?pf and fs = "fields' d" and m = Map.empty]
      assms(4)
    by simp
  from readFields_frame [OF assms(4)] have ms: "messages p1 = messages p"
    by (simp add: frame_def)
  have "\<exists>p'. parseDataMessage fl (drop_bit 5 header AND 0x03) (Some ?ts) ?q = (Inr (), p') \<and>
            lastTimestamp p' = ?ts \<and>
            (\<forall>typeName. FIT_MSG_NAMES (globalMsgNum d) = Some typeName \<longrightarrow>
               messages p' typeName =
                 Some ((case messages p typeName of None \<Rightarrow> [] | Some ms \<Rightarrow> ms)
                       @ [m(''timestamp'' \<mapsto> ?ts)]))"
    using assms(3,5) ms
    by (cases "FIT_MSG_NAMES (globalMsgNum d)")
       (simp_all add: parseDataMessage_def bindS_def rf [simplified] Let_def)
  with e l h' rng md show ?thesis by simp
qed

theorem compressed_timestamp_witness:
  "\<exists>p'. parseRecord fl0
           ((FitParser [0x85, 151])\<lparr>definitions := [0 \<mapsto> hrDef], lastTimestamp := 1000\<rparr>) =
           (Inr (), p') \<and>
         lastTimestamp p' = 1029 \<and>
         messages p' ''record'' = Some [[''heart_rate'' \<mapsto> 151, ''timestamp'' \<mapsto> 1029]]"
proof -
  let ?p = "(FitParser [0x85, 151])\<lparr>definitions := [0 \<mapsto> hrDef], lastTimestamp := 1000\<rparr>"
  let ?pf = "case FIT_FIELDS (globalMsgNum hrDef) of None \<Rightarrow> Map.empty | Some pf \<Rightarrow> pf"
  have g: "getUint8 (bytes ?p) (offset ?p) = Inr 0x85"
    by (simp add: FitParser_def getUint_def le_nat_def)
  have b: "(0x85::nat) AND 0x80 \<noteq> 0" by simp
  have l: "drop_bit 5 (0x85::nat) AND 0x03 = 0" by (simp add: drop_bit_eq_div)
  have d: "definitions ?p (drop_bit 5 (0x85::nat) AND 0x03) = Some hrDef"
    unfolding l by simp
  have r: "readFields fl0 (littleEndian hrDef) ?pf (fields' hrDef) Map.empty
             (?p\<lparr>offset := offset ?p + 1\<rparr>) =
           (Inr [''heart_rate'' \<mapsto> 151], ?p\<lparr>offset := 2\<rparr>)"
    by (simp add: hrDef_def FitParser_def readField_def BASE_TYPES_def view_read_def
        getUint_def le_nat_def FIT_FIELDS_def applyProfile_def Let_def)
  have m: "[''heart_rate'' \<mapsto> (151::real)] ''timestamp'' = None" by simp
  have T: "lastTimestamp ?p = of_int 1000" by (simp add: FitParser_def)
  have o: "(5::int) = int ((0x85::nat) AND 0x1F)" by (simp add: nat_low5)
  have n: "FIT_MSG_NAMES (globalMsgNum hrDef) = Some ''record''"
    by (simp add: FIT_MSG_NAMES_def hrDef_def)
  have z: "(0::int) \<le> 1000" "(1000::int) < 2 ^ 31" by simp_all
  have ts: "(if (5::int) < 1000 mod 32 then 1000 - 1000 mod 32 + 5 + 32
             else 1000 - 1000 mod 32 + 5) = (1029::int)"
    by simp
  note t = compressed_timestamp [OF g b d r m T z o refl, unfolded ts]
  from t [THEN conjunct2, THEN conjunct2, THEN conjunct1]
  obtain p' where p': "parseRecord fl0 ?p = (Inr (), p')" "lastTimestamp p' = of_int 1029"
    "\<forall>typeName. FIT_MSG_NAMES (globalMsgNum hrDef) = Some typeName \<longrightarrow>
       messages p' typeName =
         Some ((case messages ?p typeName of None \<Rightarrow> [] | Some ms \<Rightarrow> ms)
               @ [[''heart_rate'' \<mapsto> 151, ''timestamp'' \<mapsto> of_int 1029]])"
    by blast
  from p'(3) [rule_format, OF n] have "messages p' ''record'' =
      Some [[''heart_rate'' \<mapsto> 151, ''timestamp'' \<mapsto> 1029]]"
    by (simp add: FitParser_def)
  with p'(1,2) show ?thesis by (intro exI [of _ p']) simp
qed

lemma parseLoop_step:
  "offset p < dataEnd \<Longrightarrow> parseRecord fl p = (Inr u, p') \<Longrightarrow>
   parseLoop fl dataEnd p = parseLoop fl dataEnd p'"
  by (subst parseLoop.simps) simp

lemma parseLoop_done: "\<not> offset p < dataEnd \<Longrightarrow> parseLoop fl dataEnd p = p"
  by (subst parseLoop.simps) simp

lemma js_and_zero: "js_and 0 0xFFFFFFE0 = 0" "js_and 0 0x1F = 0"
  by (simp_all add: js_and_def ToInt32_def)

lemma js_and_4e9: "js_and 4000000000 0xFFFFFFE0 = - 294967296" "js_and 4000000000 0x1F = 0"
proof -
  have w: "ToInt32 4000000000 = word_of_int (- 294967296)"
    unfolding ToInt32_def by (simp add: word_of_int_eq_iff take_bit_eq_mod)
  have m: "ToInt32 0xFFFFFFE0 = word_of_int (- 32)" "ToInt32 0x1F = word_of_int 31"
    unfolding ToInt32_def by simp_all
  have a: "(- 294967296 :: int) AND - 32 = - 294967296" unfolding int_high27 by simp
  have b: "(- 294967296 :: int) AND 31 = 0" unfolding int_low5 by simp
  have s: "sint (word_of_int (- 294967296) :: 32 word) = - 294967296"
    by (simp add: sint_sbintrunc' signed_take_bit_int_eq_self)
  show "js_and 4000000000 0xFFFFFFE0 = - 294967296"
    unfolding js_and_def w m of_int_and_eq [symmetric] a s by simp
  show "js_and 4000000000 0x1F = 0"
    unfolding js_and_def w m of_int_and_eq [symmetric] b by simp
qed

lemma stream5_length: "length stream5 = 37"
  by (simp add: stream5_def)

lemma stream5_header:
  "parseHeader (FitParser stream5) =
     (Inr (), \<lparr>bytes = stream5, offset = 12, definitions = Map.empty, messages = Map.empty,
               lastTimestamp = 0, dataSize = 25, dataOffset = 12\<rparr>)"
  by (simp add: parseHeader_def FitParser_def getUint_def stream5_length slice_def)
     (simp add: stream5_def le_nat_def)

lemma stream5_at:
  "getUint (Suc 0) stream5 12 True = Inr 0x40" "getUint (Suc 0) stream5 13 True = Inr 0"
  "getUint (Suc 0) stream5 14 True = Inr 0" "getUint16 stream5 15 True = Inr 21"
  "getUint (Suc 0) stream5 17 True = Inr 1" "getUint (Suc 0) stream5 18 True = Inr 253"
  "getUint (Suc 0) stream5 19 True = Inr 4" "getUint (Suc 0) stream5 20 True = Inr 0x86"
  "getUint (Suc 0) stream5 21 True = Inr 0" "getUint 4 stream5 22 True = Inr 1000"
  "getUint (Suc 0) stream5 26 True = Inr 0x41" "getUint (Suc 0) stream5 27 True = Inr 0"
  "getUint (Suc 0) stream5 28 True = Inr 0" "getUint16 stream5 29 True = Inr 20"
  "getUint (Suc 0) stream5 31 True = Inr 1" "getUint (Suc 0) stream5 32 True = Inr 3"
  "getUint (Suc 0) stream5 33 True = Inr 1" "getUint (Suc 0) stream5 34 True = Inr 2"
  "getUint (Suc 0) stream5 35 True = Inr 0xA3" "getUint (Suc 0) stream5 36 True = Inr 150"
  by (simp_all add: getUint_def stream5_length) (simp_all add: stream5_def le_nat_def)

lemma stream5_definition0:
  "parseRecord fl
     \<lparr>bytes = stream5, offset = 12, definitions = Map.empty, messages = Map.empty,
      lastTimestamp = 0, dataSize = 25, dataOffset = 12\<rparr> =
     (Inr (), \<lparr>bytes = stream5, offset = 21, definitions = [0 \<mapsto> tsDef 21],
               messages = Map.empty, lastTimestamp = 0, dataSize = 25, dataOffset = 12\<rparr>)"
  by (simp add: parseRecord_def parseDefinition_def bindS_def nextUint8_def returnS_def
      stream5_at tsDef_def)

lemma stream5_event:
  "parseRecord fl
     \<lparr>bytes = stream5, offset = 21, definitions = [0 \<mapsto> tsDef 21], messages = Map.empty,
      lastTimestamp = 0, dataSize = 25, dataOffset = 12\<rparr> =
     (Inr (), \<lparr>bytes = stream5, offset = 26, definitions = [0 \<mapsto> tsDef 21],
               messages = [''event'' \<mapsto> [Map.empty]],
               lastTimestamp = 0, dataSize = 25, dataOffset = 12\<rparr>)"
  by (simp add: parseRecord_def parseDataMessage_def bindS_def nextUint8_def
      stream5_at tsDef_def readField_def BASE_TYPES_def view_read_def FIT_FIELDS_def
      FIT_MSG_NAMES_def Let_def)

lemma stream5_definition1:
  "parseRecord fl
     \<lparr>bytes = stream5, offset = 26, definitions = [0 \<mapsto> tsDef 21],
      messages = [''event'' \<mapsto> [Map.empty]],
      lastTimestamp = 0, dataSize = 25, dataOffset = 12\<rparr> =
     (Inr (), \<lparr>bytes = stream5, offset = 35, definitions = [0 \<mapsto> tsDef 21, 1 \<mapsto> hrDef],
               messages = [''event'' \<mapsto> [Map.empty]],
               lastTimestamp = 0, dataSize = 25, dataOffset = 12\<rparr>)"
  by (simp add: parseRecord_def parseDefinition_def bindS_def nextUint8_def returnS_def
      stream5_at hrDef_def)

lemma low_bits_A3: "(0xA3::nat) AND 0x80 \<noteq> 0" "drop_bit 5 (0xA3::nat) AND 0x03 = 1"
  "(0xA3::nat) AND 0x1F = 3"
  by (simp_all add: drop_bit_eq_div nat_low5)

lemma stream5_compressed:
  "parseRecord fl
     \<lparr>bytes = stream5, offset = 35, definitions = [0 \<mapsto> tsDef 21, 1 \<mapsto> hrDef],
      messages = [''event'' \<mapsto> [Map.empty]],
      lastTimestamp = 0, dataSize = 25, dataOffset = 12\<rparr> =
     (Inr (), \<lparr>bytes = stream5, offset = 37, definitions = [0 \<mapsto> tsDef 21, 1 \<mapsto> hrDef],
               messages = [''event'' \<mapsto> [Map.empty],
                           ''record'' \<mapsto> [[''heart_rate'' \<mapsto> 150, ''timestamp'' \<mapsto> 3]]],
               lastTimestamp = 3, dataSize = 25, dataOffset = 12\<rparr>)"
  by (simp add: parseRecord_def parseDataMessage_def bindS_def nextUint8_def
      stream5_at hrDef_def readField_def BASE_TYPES_def view_read_def FIT_FIELDS_def
      FIT_MSG_NAMES_def applyProfile_def Let_def low_bits_A3 js_and_zero fadd_def rnd_numeral)

lemma stream5_parse:
  "fst (parse fl (FitParser stream5)) =
     Inr [''event'' \<mapsto> [Map.empty],
          ''record'' \<mapsto> [[''heart_rate'' \<mapsto> 150, ''timestamp'' \<mapsto> 3]]]"
proof -
  let ?s0 = "\<lparr>bytes = stream5, offset = 12, definitions = Map.empty, messages = Map.empty,
      lastTimestamp = 0, dataSize = 25, dataOffset = 12\<rparr>"
  let ?s1 = "\<lparr>bytes = stream5, offset = 21, definitions = [0 \<mapsto> tsDef 21], messages = Map.empty,
      lastTimestamp = 0, dataSize = 25, dataOffset = 12\<rparr>"
  let ?s2 = "\<lparr>bytes = stream5, offset = 26, definitions = [0 \<mapsto> tsDef 21], messages = [''event'' \<mapsto> [Map.empty]],
      lastTimestamp = 0, dataSize = 25, dataOffset = 12\<rparr>"
  let ?s3 = "\<lparr>bytes = stream5, offset = 35, definitions = [0 \<mapsto> tsDef 21, 1 \<mapsto> hrDef], messages = [''event'' \<mapsto> [Map.empty]],
      lastTimestamp = 0, dataSize = 25, dataOffset = 12\<rparr>"
  let ?s4 = "\<lparr>bytes = stream5, offset = 37, definitions = [0 \<mapsto> tsDef 21, 1 \<mapsto> hrDef], messages = [''event'' \<mapsto> [Map.empty],
          ''record'' \<mapsto> [[''heart_rate'' \<mapsto> 150, ''timestamp'' \<mapsto> 3]]],
      lastTimestamp = 3, dataSize = 25, dataOffset = 12\<rparr>"
  have "parseLoop fl 37 ?s0 = parseLoop fl 37 ?s1"
    by (rule parseLoop_step [OF _ stream5_definition0]) simp
  also have "\<dots> = parseLoop fl 37 ?s2"
    by (rule parseLoop_step [OF _ stream5_event]) simp
  also have "\<dots> = parseLoop fl 37 ?s3"
    by (rule parseLoop_step [OF _ stream5_definition1]) simp
  also have "\<dots> = parseLoop fl 37 ?s4"
    by (rule parseLoop_step [OF _ stream5_compressed]) simp
  also have "\<dots> = ?s4" by (rule parseLoop_done) simp
  finally show ?thesis unfolding parse_def stream5_header by simp
qed

lemma stream6_length: "length stream6 = 37"
  by (simp add: stream6_def)

lemma stream6_header:
  "parseHeader (FitParser stream6) =
     (Inr (), \<lparr>bytes = stream6, offset = 12, definitions = Map.empty, messages = Map.empty,
               lastTimestamp = 0, dataSize = 25, dataOffset = 12\<rparr>)"
  by (simp add: parseHeader_def FitParser_def getUint_def stream6_length slice_def)
     (simp add: stream6_def le_nat_def)

lemma stream6_at:
  "getUint (Suc 0) stream6 12 True = Inr 0x40" "getUint (Suc 0) stream6 13 True = Inr 0"
  "getUint (Suc 0) stream6 14 True = Inr 0" "getUint16 stream6 15 True = Inr 20"
  "getUint (Suc 0) stream6 17 True = Inr 1" "getUint (Suc 0) stream6 18 True = Inr 253"
  "getUint (Suc 0) stream6 19 True = Inr 4" "getUint (Suc 0) stream6 20 True = Inr 0x86"
  "getUint (Suc 0) stream6 21 True = Inr 0" "getUint 4 stream6 22 True = Inr 4000000000"
  "getUint (Suc 0) stream6 26 True = Inr 0x41" "getUint (Suc 0) stream6 27 True = Inr 0"
  "getUint (Suc 0) stream6 28 True = Inr 0" "getUint16 stream6 29 True = Inr 20"
  "getUint (Suc 0) stream6 31 True = Inr 1" "getUint (Suc 0) stream6 32 True = Inr 3"
  "getUint (Suc 0) stream6 33 True = Inr 1" "getUint (Suc 0) stream6 34 True = Inr 2"
  "getUint (Suc 0) stream6 35 True = Inr 0xA3" "getUint (Suc 0) stream6 36 True = Inr 150"
  by (simp_all add: getUint_def stream6_length) (simp_all add: stream6_def le_nat_def)

lemma stream6_definition0:
  "parseRecord fl
     \<lparr>bytes = stream6, offset = 12, definitions = Map.empty, messages = Map.empty,
      lastTimestamp = 0, dataSize = 25, dataOffset = 12\<rparr> =
     (Inr (), \<lparr>bytes = stream6, offset = 21, definitions = [0 \<mapsto> tsDef 20],
               messages = Map.empty, lastTimestamp = 0, dataSize = 25, dataOffset = 12\<rparr>)"
  by (simp add: parseRecord_def parseDefinition_def bindS_def nextUint8_def returnS_def
      stream6_at tsDef_def)

lemma stream6_record:
  "parseRecord fl
     \<lparr>bytes = stream6, offset = 21, definitions = [0 \<mapsto> tsDef 20], messages = Map.empty,
      lastTimestamp = 0, dataSize = 25, dataOffset = 12\<rparr> =
     (Inr (), \<lparr>bytes = stream6, offset = 26, definitions = [0 \<mapsto> tsDef 20],
               messages = [''record'' \<mapsto> [[''timestamp'' \<mapsto> 4000000000]]],
               lastTimestamp = 4000000000, dataSize = 25, dataOffset = 12\<rparr>)"
  by (simp add: parseRecord_def parseDataMessage_def bindS_def nextUint8_def
      stream6_at tsDef_def readField_def BASE_TYPES_def view_read_def FIT_FIELDS_def
      FIT_MSG_NAMES_def applyProfile_def Let_def)

lemma stream6_definition1:
  "parseRecord fl
     \<lparr>bytes = stream6, offset = 26, definitions = [0 \<mapsto> tsDef 20],
      messages = [''record'' \<mapsto> [[''timestamp'' \<mapsto> 4000000000]]],
      lastTimestamp = 4000000000, dataSize = 25, dataOffset = 12\<rparr> =
     (Inr (), \<lparr>bytes = stream6, offset = 35, definitions = [0 \<mapsto> tsDef 20, 1 \<mapsto> hrDef],
               messages = [''record'' \<mapsto> [[''timestamp'' \<mapsto> 4000000000]]],
               lastTimestamp = 4000000000, dataSize = 25, dataOffset = 12\<rparr>)"
  by (simp add: parseRecord_def parseDefinition_def bindS_def nextUint8_def returnS_def
      stream6_at hrDef_def)

lemma fadd_neg: "fadd (- 294967296) 3 = - 294967293"
  using rnd_of_int [of "- 294967293"] by (simp add: fadd_def)

lemma stream6_compressed:
  "parseRecord fl
     \<lparr>bytes = stream6, offset = 35, definitions = [0 \<mapsto> tsDef 20, 1 \<mapsto> hrDef],
      messages = [''record'' \<mapsto> [[''timestamp'' \<mapsto> 4000000000]]],
      lastTimestamp = 4000000000, dataSize = 25, dataOffset = 12\<rparr> =
     (Inr (), \<lparr>bytes = stream6, offset = 37, definitions = [0 \<mapsto> tsDef 20, 1 \<mapsto> hrDef],
               messages = [''record'' \<mapsto> [[''timestamp'' \<mapsto> 4000000000],
                              [''heart_rate'' \<mapsto> 150, ''timestamp'' \<mapsto> - 294967293]]],
               lastTimestamp = - 294967293, dataSize = 25, dataOffset = 12\<rparr>)"
  by (simp add: parseRecord_def parseDataMessage_def bindS_def nextUint8_def
      stream6_at hrDef_def readField_def BASE_TYPES_def view_read_def FIT_FIELDS_def
      FIT_MSG_NAMES_def applyProfile_def Let_def low_bits_A3 js_and_4e9 fadd_neg)

lemma stream6_parse:
  "fst (parse fl (FitParser stream6)) =
     Inr [''record'' \<mapsto> [[''timestamp'' \<mapsto> 4000000000],
                          [''heart_rate'' \<mapsto> 150, ''timestamp'' \<mapsto> - 294967293]]]"
proof -
  let ?s0 = "\<lparr>bytes = stream6, offset = 12, definitions = Map.empty, messages = Map.empty,
      lastTimestamp = 0, dataSize = 25, dataOffset = 12\<rparr>"
  let ?s1 = "\<lparr>bytes = stream6, offset = 21, definitions = [0 \<mapsto> tsDef 20], messages = Map.empty,
      lastTimestamp = 0, dataSize = 25, dataOffset = 12\<rparr>"
  let ?s2 = "\<lparr>bytes = stream6, offset = 26, definitions = [0 \<mapsto> tsDef 20], messages = [''record'' \<mapsto> [[''timestamp'' \<mapsto> 4000000000]]],
      lastTimestamp = 4000000000, dataSize = 25, dataOffset = 12\<rparr>"
  let ?s3 = "\<lparr>bytes = stream6, offset = 35, definitions = [0 \<mapsto> tsDef 20, 1 \<mapsto> hrDef], messages = [''record'' \<mapsto> [[''timestamp'' \<mapsto> 4000000000]]],
      lastTimestamp = 4000000000, dataSize = 25, dataOffset = 12\<rparr>"
  let ?s4 = "\<lparr>bytes = stream6, offset = 37, definitions = [0 \<mapsto> tsDef 20, 1 \<mapsto> hrDef], messages = [''record'' \<mapsto> [[''timestamp'' \<mapsto> 4000000000],
                          [''heart_rate'' \<mapsto> 150, ''timestamp'' \<mapsto> - 294967293]]],
      lastTimestamp = - 294967293, dataSize = 25, dataOffset = 12\<rparr>"
  have "parseLoop fl 37 ?s0 = parseLoop fl 37 ?s1"
    by (rule parseLoop_step [OF _ stream6_definition0]) simp
  also have "\<dots> = parseLoop fl 37 ?s2"
    by (rule parseLoop_step [OF _ stream6_record]) simp
  also have "\<dots> = parseLoop fl 37 ?s3"
    by (rule parseLoop_step [OF _ stream6_definition1]) simp
  also have "\<dots> = parseLoop fl 37 ?s4"
    by (rule parseLoop_step [OF _ stream6_compressed]) simp
  also have "\<dots> = ?s4" by (rule parseLoop_done) simp
  finally show ?thesis unfolding parse_def stream6_header by simp
qed

lemma js_and_1000: "js_and 1000 0xFFFFFFE0 = 992" "js_and 1000 0x1F = 8"
  using js_and_high27 [of 1000] js_and_low5 [of 1000] by simp_all

lemma explicit_timestamp_record:
  "parseRecord fl
     ((FitParser [0x83, 0x88, 0x13, 0, 0])\<lparr>definitions := [0 \<mapsto> tsDef 20], lastTimestamp := 1000\<rparr>) =
     (Inr (), \<lparr>bytes = [0x83, 0x88, 0x13, 0, 0], offset = 5, definitions = [0 \<mapsto> tsDef 20],
               messages = [''record'' \<mapsto> [[''timestamp'' \<mapsto> 5000]]],
               lastTimestamp = 5000, dataSize = 0, dataOffset = 0\<rparr>)"
proof -
  have b: "(0x83::nat) AND 0x80 \<noteq> 0" "drop_bit 5 (0x83::nat) AND 0x03 = 0"
    "(0x83::nat) AND 0x1F = 3"
    by (simp_all add: drop_bit_eq_div nat_low5)
  have g: "getUint (Suc 0) [0x83, 0x88, 0x13, 0, 0 :: byte] 0 True = Inr 0x83"
    "getUint 4 [0x83, 0x88, 0x13, 0, 0 :: byte] (Suc 0) True = Inr 5000"
    by (simp_all add: getUint_def le_nat_def)
  show ?thesis
    by (simp add: parseRecord_def parseDataMessage_def bindS_def nextUint8_def FitParser_def
        g b tsDef_def readField_def BASE_TYPES_def view_read_def FIT_FIELDS_def
        FIT_MSG_NAMES_def applyProfile_def Let_def js_and_1000)
qed

text \<open>
  Claim C3 as stated fails. In the first stream the last full timestamp before the
  compressed record is 1000, in an \<^verbatim>\<open>event\<close> message; only \<^verbatim>\<open>lap\<close> and \<^verbatim>\<open>record\<close>
  messages have a timestamp in the profile, so the running timestamp is still 0 and the
  record is stored with the timestamp 3, not \<open>(1000 & ~0x1F) + 3 + 32 = 1027\<close>. In the
  second stream the last full timestamp is 4000000000 and the record is stored with
  the timestamp -294967293, not 4000000003: the operator \<^verbatim>\<open>&\<close> yields a signed 32-bit
  integer. A compressed-timestamp record with the offset 3 that carries the timestamp 5000
  in a field of its own, after the running timestamp 1000, is stored with 5000, not 1027.
\<close>

theorem compressed_timestamp_counterexample:
  "fst (parse fl0 (FitParser stream5)) =
     Inr [''event'' \<mapsto> [Map.empty],
          ''record'' \<mapsto> [[''heart_rate'' \<mapsto> 150, ''timestamp'' \<mapsto> 3]]] \<and>
   fst (parse fl0 (FitParser stream6)) =
     Inr [''record'' \<mapsto> [[''timestamp'' \<mapsto> 4000000000],
                          [''heart_rate'' \<mapsto> 150, ''timestamp'' \<mapsto> - 294967293]]] \<and>
   parseRecord fl0
     ((FitParser [0x83, 0x88, 0x13, 0, 0])\<lparr>definitions := [0 \<mapsto> tsDef 20], lastTimestamp := 1000\<rparr>) =
     (Inr (), \<lparr>bytes = [0x83, 0x88, 0x13, 0, 0], offset = 5, definitions = [0 \<mapsto> tsDef 20],
               messages = [''record'' \<mapsto> [[''timestamp'' \<mapsto> 5000]]],
               lastTimestamp = 5000, dataSize = 0, dataOffset = 0\<rparr>)"
  using stream5_parse [of fl0] stream6_parse [of fl0] explicit_timestamp_record [of fl0]
  by simp
subsection \<open>Invalid sentinels\<close>

lemma readField_sentinel:
  assumes "BASE_TYPES (baseType field) = Some t \<or>
           BASE_TYPES (baseType field) = None \<and> BASE_TYPES (baseType field AND 0x1F) = Some t"
      and "read t = Some rd"
      and "fsize field = tsize t"
      and "invalid t = Some s"
      and "view_read fl rd (bytes p) (offset p) le = Inr s"
  shows "readField fl field le p = (Inr None, p\<lparr>offset := offset p + fsize field\<rparr>)"
  using assms by (auto simp: readField_def Let_def)

text \<open>
  Claim C7. When the base type of a field has an invalid sentinel and the value decoded
  from the field's bytes is that sentinel, \<open>readField\<close> returns \<^verbatim>\<open>null\<close> (and moves the
  cursor over the field), the loop over the fields leaves the message as it was, and a
  plain data message whose definition has this one field is stored with no field at all.
\<close>

theorem sentinel_is_absent:
  assumes "BASE_TYPES (baseType field) = Some t \<or>
           BASE_TYPES (baseType field) = None \<and> BASE_TYPES (baseType field AND 0x1F) = Some t"
      and "read t = Some rd"
      and "fsize field = tsize t"
      and "invalid t = Some s"
      and "view_read fl rd (bytes p) (offset p) le = Inr s"
  shows "readField fl field le p = (Inr None, p\<lparr>offset := offset p + fsize field\<rparr>) \<and>
         readFields fl le pf (field # rest) m p =
           readFields fl le pf rest m (p\<lparr>offset := offset p + fsize field\<rparr>) \<and>
         (\<forall>localType d typeName.
            definitions p localType = Some d \<and> fields' d = [field] \<and> littleEndian d = le \<and>
            FIT_MSG_NAMES (globalMsgNum d) = Some typeName \<longrightarrow>
            (\<exists>p'. parseDataMessage fl localType None p = (Inr (), p') \<and>
                  messages p' typeName =
                    Some ((case messages p typeName of None \<Rightarrow> [] | Some ms \<Rightarrow> ms) @ [Map.empty])))"
proof -
  note r = readField_sentinel [OF assms]
  have f: "readFields fl le pf (field # rest) m p =
           readFields fl le pf rest m (p\<lparr>offset := offset p + fsize field\<rparr>)" for pf rest m
    by (simp add: r split: option.splits)
  have d: "\<exists>p'. parseDataMessage fl localType None p = (Inr (), p') \<and>
                  messages p' typeName =
                    Some ((case messages p typeName of None \<Rightarrow> [] | Some ms \<Rightarrow> ms) @ [Map.empty])"
    if "definitions p localType = Some d" "fields' d = [field]" "littleEndian d = le"
       "FIT_MSG_NAMES (globalMsgNum d) = Some typeName" for localType d typeName
  proof -
    have "readFields fl le pf [field] Map.empty p =
            (Inr Map.empty, p\<lparr>offset := offset p + fsize field\<rparr>)" for pf
      unfolding f by simp
    with that show ?thesis
      by (simp add: parseDataMessage_def bindS_def Let_def del: readFields.simps)
  qed
  from r f d show ?thesis by blast
qed

theorem sentinel_is_absent_witness:
  "\<exists>p'. parseDataMessage fl0 0 None
          ((FitParser [0xFF])\<lparr>definitions :=
             [0 \<mapsto> \<lparr>globalMsgNum = 20, littleEndian = True,
                       fields' = [\<lparr>num = 3, fsize = 1, baseType = 2\<rparr>], devFields = []\<rparr>]\<rparr>)
          = (Inr (), p') \<and>
        messages p' ''record'' = Some [Map.empty]"
proof -
  let ?f = "\<lparr>num = 3, fsize = 1, baseType = 2\<rparr>"
  let ?d = "\<lparr>globalMsgNum = 20, littleEndian = True, fields' = [?f], devFields = []\<rparr>"
  let ?p = "(FitParser [0xFF])\<lparr>definitions := [0 \<mapsto> ?d]\<rparr>"
  let ?t = "\<lparr>tsize = 1, read = Some GetUint8, invalid = Some 0xFF\<rparr>"
  have b: "BASE_TYPES (baseType ?f) = Some ?t \<or>
           BASE_TYPES (baseType ?f) = None \<and> BASE_TYPES (baseType ?f AND 0x1F) = Some ?t"
    by (simp add: BASE_TYPES_def)
  have v: "view_read fl0 GetUint8 (bytes ?p) (offset ?p) True = Inr 0xFF"
    by (simp add: view_read_def getUint_def le_nat_def FitParser_def)
  have n: "FIT_MSG_NAMES (globalMsgNum ?d) = Some ''record''"
    by (simp add: FIT_MSG_NAMES_def)
  from sentinel_is_absent [of ?f ?t GetUint8 "0xFF" fl0 ?p True, OF b _ _ _ v,
      THEN conjunct2, THEN conjunct2, rule_format, of 0 ?d "''record''"] n
  show ?thesis by (simp add: FitParser_def)
qed

subsection \<open>Decode failures\<close>

lemma parseLoop_decoded:
  "decoded fl dataEnd p q \<Longrightarrow> parseLoop fl dataEnd p = parseLoop fl dataEnd q"
proof (induction rule: decoded.induct)
  case (decoded_none fl dataEnd p)
  show ?case ..
next
  case (decoded_record p dataEnd fl u p' q)
  from decoded_record(1,2) have "parseLoop fl dataEnd p = parseLoop fl dataEnd p'"
    by (subst parseLoop.simps) simp
  with decoded_record.IH show ?case by simp
qed

lemma parseLoop_fail:
  assumes "offset q < dataEnd" and "parseRecord fl q = (Inl e, q')"
  shows "parseLoop fl dataEnd q = q'" and "messages q' = messages q"
proof -
  from assms show "parseLoop fl dataEnd q = q'" by (subst parseLoop.simps) simp
  from parseRecord_fail [OF assms(2)] show "messages q' = messages q" by simp
qed

lemma le_nat_take1: "bs \<noteq> [] \<Longrightarrow> le_nat (take 1 bs) = unat (bs ! 0)"
  by (cases bs) (simp_all add: le_nat_def)

lemma parseHeader_ok:
  assumes "slice (bytes p) 8 12 = [0x2E, 0x46, 0x49, 0x54]"
  shows "parseHeader p =
           (Inr (), p\<lparr>dataSize := le_nat (take 4 (drop 4 (bytes p))),
                       offset := unat (bytes p ! 0), dataOffset := unat (bytes p ! 0)\<rparr>)"
proof -
  from assms have "length (slice (bytes p) 8 12) = 4" by simp
  then have l: "12 \<le> length (bytes p)" by (simp add: slice_def)
  then have "bytes p \<noteq> []" by auto
  from le_nat_take1 [OF this] l assms show ?thesis
    by (simp add: parseHeader_def getUint_def)
qed

lemma parseRecord_no_definition:
  assumes "getUint8 (bytes q) (offset q) = Inr h"
      and "h AND 0x80 = 0" "h AND 0x40 = 0"
      and "definitions q (h AND 0x0F) = None"
  shows "parseRecord fl q = (Inl (NoDefinition (h AND 0x0F)), q\<lparr>offset := offset q + 1\<rparr>)"
  using assms by (simp add: parseRecord_def bindS_def nextUint8_def parseDataMessage_def)

text \<open>
  Claim C4. When the signature of the header is right, the header is accepted and
  \<open>parse\<close> returns messages instead of throwing. If, after any number of records decoded
  without a throw, the next record throws, the messages returned are those of the state
  before that record: the messages of the records decoded before it. A plain data record
  for a local type without a definition is such a record.
\<close>

theorem decode_failure_is_swallowed:
  assumes "slice (bytes p) 8 12 = [0x2E, 0x46, 0x49, 0x54]"
  shows "\<exists>p1 ms pf.
           parseHeader p = (Inr (), p1) \<and> parse fl p = (Inr ms, pf) \<and>
           (\<forall>q e q'. decoded fl (dataOffset p1 + dataSize p1) p1 q \<and>
                offset q < dataOffset p1 + dataSize p1 \<and> parseRecord fl q = (Inl e, q') \<longrightarrow>
                ms = messages q) \<and>
           (\<forall>q h. decoded fl (dataOffset p1 + dataSize p1) p1 q \<and>
                offset q < dataOffset p1 + dataSize p1 \<and>
                getUint8 (bytes q) (offset q) = Inr h \<and> h AND 0x80 = 0 \<and> h AND 0x40 = 0 \<and>
                definitions q (h AND 0x0F) = None \<longrightarrow>
                ms = messages q)"
proof -
  from parseHeader_ok [OF assms] obtain p1 where p1: "parseHeader p = (Inr (), p1)" by blast
  let ?e = "dataOffset p1 + dataSize p1"
  let ?pf = "parseLoop fl ?e p1"
  from p1 have r: "parse fl p = (Inr (messages ?pf), ?pf)"
    by (simp add: parse_def Let_def)
  have f: "messages ?pf = messages q"
    if "decoded fl ?e p1 q" "offset q < ?e" "parseRecord fl q = (Inl e, q')" for q e q'
    using parseLoop_decoded [OF that(1)] parseLoop_fail [OF that(2,3)] by simp
  have n: "messages ?pf = messages q"
    if "decoded fl ?e p1 q" "offset q < ?e" "getUint8 (bytes q) (offset q) = Inr h"
       "h AND 0x80 = 0" "h AND 0x40 = 0" "definitions q (h AND 0x0F) = None" for q h
    using f [OF that(1,2) parseRecord_no_definition [OF that(3-6)]] .
  from p1 r f n show ?thesis by blast
qed

lemma stream3_length: "length stream3 = 24"
  by (simp add: stream3_def)

lemma stream3_header:
  "parseHeader (FitParser stream3) =
     (Inr (), \<lparr>bytes = stream3, offset = 12, definitions = Map.empty, messages = Map.empty,
               lastTimestamp = 0, dataSize = 12, dataOffset = 12\<rparr>)"
  by (simp add: parseHeader_def FitParser_def getUint_def stream3_length slice_def)
     (simp add: stream3_def le_nat_def)

lemma stream3_at:
  "getUint (Suc 0) stream3 12 True = Inr 0x40" "getUint (Suc 0) stream3 13 True = Inr 0" "getUint (Suc 0) stream3 14 True = Inr 0"
  "getUint16 stream3 15 True = Inr 20" "getUint (Suc 0) stream3 17 True = Inr 1"
  "getUint (Suc 0) stream3 18 True = Inr 3" "getUint (Suc 0) stream3 19 True = Inr 1" "getUint (Suc 0) stream3 20 True = Inr 2"
  "getUint (Suc 0) stream3 21 True = Inr 0" "getUint (Suc 0) stream3 22 True = Inr 150" "getUint (Suc 0) stream3 23 True = Inr 1"
  by (simp_all add: getUint_def stream3_length) (simp_all add: stream3_def le_nat_def)

lemma stream3_definition:
  "parseRecord fl
     \<lparr>bytes = stream3, offset = 12, definitions = Map.empty, messages = Map.empty,
      lastTimestamp = 0, dataSize = 12, dataOffset = 12\<rparr> =
     (Inr (), \<lparr>bytes = stream3, offset = 21, definitions = [0 \<mapsto> hrDef], messages = Map.empty,
               lastTimestamp = 0, dataSize = 12, dataOffset = 12\<rparr>)"
  by (simp add: parseRecord_def parseDefinition_def bindS_def nextUint8_def returnS_def
      stream3_at hrDef_def)

lemma stream3_data:
  "parseRecord fl
     \<lparr>bytes = stream3, offset = 21, definitions = [0 \<mapsto> hrDef], messages = Map.empty,
      lastTimestamp = 0, dataSize = 12, dataOffset = 12\<rparr> =
     (Inr (), \<lparr>bytes = stream3, offset = 23, definitions = [0 \<mapsto> hrDef],
               messages = [''record'' \<mapsto> [[''heart_rate'' \<mapsto> 150]]],
               lastTimestamp = 0, dataSize = 12, dataOffset = 12\<rparr>)"
  by (simp add: parseRecord_def parseDataMessage_def bindS_def nextUint8_def
      stream3_at hrDef_def readField_def BASE_TYPES_def view_read_def FIT_FIELDS_def
      FIT_MSG_NAMES_def applyProfile_def Let_def)

theorem decode_failure_is_swallowed_witness:
  "fst (parse fl0 (FitParser stream3)) = Inr [''record'' \<mapsto> [[''heart_rate'' \<mapsto> 150]]]"
proof -
  let ?p1 = "\<lparr>bytes = stream3, offset = 12, definitions = Map.empty, messages = Map.empty,
               lastTimestamp = 0, dataSize = 12, dataOffset = 12\<rparr>"
  let ?p2 = "\<lparr>bytes = stream3, offset = 21, definitions = [0 \<mapsto> hrDef], messages = Map.empty,
               lastTimestamp = 0, dataSize = 12, dataOffset = 12\<rparr>"
  let ?p3 = "\<lparr>bytes = stream3, offset = 23, definitions = [0 \<mapsto> hrDef],
               messages = [''record'' \<mapsto> [[''heart_rate'' \<mapsto> 150]]],
               lastTimestamp = 0, dataSize = 12, dataOffset = 12\<rparr>"
  have sig: "slice (bytes (FitParser stream3)) 8 12 = [0x2E, 0x46, 0x49, 0x54]"
    by (simp add: FitParser_def slice_def stream3_def)
  from decode_failure_is_swallowed [OF sig, of fl0] obtain p1 ms pf where
    h: "parseHeader (FitParser stream3) = (Inr (), p1)" and
    r: "parse fl0 (FitParser stream3) = (Inr ms, pf)" and
    n: "\<forall>q h. decoded fl0 (dataOffset p1 + dataSize p1) p1 q \<and>
                offset q < dataOffset p1 + dataSize p1 \<and>
                getUint8 (bytes q) (offset q) = Inr h \<and> h AND 0x80 = 0 \<and> h AND 0x40 = 0 \<and>
                definitions q (h AND 0x0F) = None \<longrightarrow>
                ms = messages q"
    by blast
  from h have p1: "p1 = ?p1" by (simp add: stream3_header)
  have "decoded fl0 24 ?p3 ?p3" by (rule decoded_none)
  then have "decoded fl0 24 ?p2 ?p3"
    by (rule decoded_record [rotated 1, OF stream3_data]) simp
  then have d: "decoded fl0 24 ?p1 ?p3"
    by (rule decoded_record [rotated 1, OF stream3_definition]) simp
  have g: "getUint8 (bytes ?p3) (offset ?p3) = Inr 1"
    using stream3_at(11) by simp
  from n [rule_format, of ?p3 1] d g have "ms = messages ?p3"
    by (simp add: p1 hrDef_def)
  with r show ?thesis by simp
qed

subsection \<open>The cursor of a decode pass\<close>

lemma bindS_ok: "m p = (Inr x, q) \<Longrightarrow> bindS m f p = f x q"
  by (simp add: bindS_def)

lemma getUint8_nth: "off < length bs \<Longrightarrow> getUint8 bs off = Inr (unat (bs ! off))"
  by (simp add: getUint_def le_nat_def Cons_nth_drop_Suc [symmetric])

lemma nextUint8_ok:
  "offset p < length (bytes p) \<Longrightarrow>
   nextUint8 p = (Inr (unat (bytes p ! offset p)), p\<lparr>offset := offset p + 1\<rparr>)"
  using getUint8_nth [of "offset p" "bytes p"] by (simp add: nextUint8_def)

lemma drop_eq_ConsD:
  assumes "drop n xs = b # rest"
  shows "n < length xs" and "xs ! n = b" and "drop (n + 1) xs = rest"
proof -
  from assms show l: "n < length xs" by (metis drop_all list.distinct(1) not_le)
  from Cons_nth_drop_Suc [OF l] assms show "xs ! n = b" "drop (n + 1) xs = rest" by simp_all
qed

lemma drop_eq_appendD:
  assumes "drop n xs = ys @ rest"
  shows "drop (n + length ys) xs = rest" and "ys \<noteq> [] \<Longrightarrow> n + length ys \<le> length xs"
proof -
  have "drop (n + length ys) xs = drop (length ys) (drop n xs)" by (simp add: add.commute)
  with assms show "drop (n + length ys) xs = rest" by simp
  from assms have "length (drop n xs) = length ys + length rest" by simp
  then have "length xs - n = length ys + length rest" by simp
  then show "n + length ys \<le> length xs" if "ys \<noteq> []"
    using that by (cases ys) simp_all
qed

lemma next_byte:
  assumes "drop (offset p) (bytes p) = b # rest"
  shows "nextUint8 p = (Inr (unat b), p\<lparr>offset := offset p + 1\<rparr>)"
  using drop_eq_ConsD(1,2) [OF assms] nextUint8_ok [of p] by simp

lemma readFieldDefs_ok:
  "drop (offset p) (bytes p) = encodeFields fs @ rest \<Longrightarrow>
   readFieldDefs (length fs) p = (Inr (map mkField fs), p\<lparr>offset := offset p + 3 * length fs\<rparr>)"
proof (induction fs arbitrary: p)
  case Nil
  then show ?case by (simp add: returnS_def)
next
  case (Cons f fs)
  obtain a b c where f: "f = (a, b, c)" by (cases f)
  let ?p1 = "p\<lparr>offset := offset p + 1\<rparr>"
  let ?p2 = "p\<lparr>offset := offset p + 2\<rparr>"
  let ?p3 = "p\<lparr>offset := offset p + 3\<rparr>"
  from Cons.prems f have d0: "drop (offset p) (bytes p) = a # b # c # encodeFields fs @ rest"
    by (simp add: encodeFields_def)
  from drop_eq_appendD(1) [of _ _ "[a]"] d0
  have d1: "drop (offset ?p1) (bytes ?p1) = b # c # encodeFields fs @ rest" by simp
  from drop_eq_appendD(1) [of _ _ "[a, b]"] d0
  have d2: "drop (offset ?p2) (bytes ?p2) = c # encodeFields fs @ rest" by (simp add: eval_nat_numeral)
  from drop_eq_appendD(1) [of _ _ "[a, b, c]"] d0
  have d3: "drop (offset ?p3) (bytes ?p3) = encodeFields fs @ rest" by (simp add: eval_nat_numeral)
  have n1: "nextUint8 p = (Inr (unat a), ?p1)" using next_byte [OF d0] .
  have n2: "nextUint8 ?p1 = (Inr (unat b), ?p2)" using next_byte [OF d1] by simp
  have n3: "nextUint8 ?p2 = (Inr (unat c), ?p3)" using next_byte [OF d2] by simp
  from Cons.IH [OF d3] have r: "readFieldDefs (length fs) ?p3 =
      (Inr (map mkField fs), p\<lparr>offset := offset p + 3 * length (f # fs)\<rparr>)"
    by (simp add: add.assoc)
  show ?case
    unfolding length_Cons readFieldDefs.simps
    by (simp only: bindS_ok [where m = nextUint8, OF n1] bindS_ok [where m = nextUint8, OF n2]
          bindS_ok [where m = nextUint8, OF n3]
          bindS_ok [where m = "readFieldDefs (length fs)", OF r] returnS_def)
       (simp add: f mkField_def)
qed

lemma readDevFieldDefs_ok:
  "drop (offset p) (bytes p) = encodeFields fs @ rest \<Longrightarrow>
   readDevFieldDefs (length fs) p = (Inr (map mkDevField fs), p\<lparr>offset := offset p + 3 * length fs\<rparr>)"
proof (induction fs arbitrary: p)
  case Nil
  then show ?case by (simp add: returnS_def)
next
  case (Cons f fs)
  obtain a b c where f: "f = (a, b, c)" by (cases f)
  let ?p1 = "p\<lparr>offset := offset p + 1\<rparr>"
  let ?p2 = "p\<lparr>offset := offset p + 2\<rparr>"
  let ?p3 = "p\<lparr>offset := offset p + 3\<rparr>"
  from Cons.prems f have d0: "drop (offset p) (bytes p) = a # b # c # encodeFields fs @ rest"
    by (simp add: encodeFields_def)
  from drop_eq_appendD(1) [of _ _ "[a]"] d0
  have d1: "drop (offset ?p1) (bytes ?p1) = b # c # encodeFields fs @ rest" by simp
  from drop_eq_appendD(1) [of _ _ "[a, b]"] d0
  have d2: "drop (offset ?p2) (bytes ?p2) = c # encodeFields fs @ rest" by (simp add: eval_nat_numeral)
  from drop_eq_appendD(1) [of _ _ "[a, b, c]"] d0
  have d3: "drop (offset ?p3) (bytes ?p3) = encodeFields fs @ rest" by (simp add: eval_nat_numeral)
  have n1: "nextUint8 p = (Inr (unat a), ?p1)" using next_byte [OF d0] .
  have n2: "nextUint8 ?p1 = (Inr (unat b), ?p2)" using next_byte [OF d1] by simp
  have n3: "nextUint8 ?p2 = (Inr (unat c), ?p3)" using next_byte [OF d2] by simp
  from Cons.IH [OF d3] have r: "readDevFieldDefs (length fs) ?p3 =
      (Inr (map mkDevField fs), p\<lparr>offset := offset p + 3 * length (f # fs)\<rparr>)"
    by (simp add: add.assoc)
  show ?case
    unfolding length_Cons readDevFieldDefs.simps
    by (simp only: bindS_ok [where m = nextUint8, OF n1] bindS_ok [where m = nextUint8, OF n2]
          bindS_ok [where m = nextUint8, OF n3]
          bindS_ok [where m = "readDevFieldDefs (length fs)", OF r] returnS_def)
       (simp add: f mkDevField_def)
qed

lemma getUint16_ok: "off + 2 \<le> length bs \<Longrightarrow> \<exists>v. getUint16 bs off le = Inr v"
  by (simp add: getUint_def)

lemma parseDefinition_ok:
  assumes d: "drop (offset p) (bytes p) =
               [reserved, arch, g0, g1, of_nat (length fs)] @ encodeFields fs @
               (if hasDev then of_nat (length ds) # encodeFields ds else []) @ rest"
      and lf: "length fs < 256" and ld: "length ds < 256"
  shows "\<exists>g. parseDefinition localType hasDev p =
           (Inr (),
            p\<lparr>offset := offset p + 5 + 3 * length fs + (if hasDev then 1 + 3 * length ds else 0),
              definitions := (definitions p)
                (localType \<mapsto> \<lparr>globalMsgNum = g, littleEndian = (unat arch = 0),
                   fields' = map mkField fs,
                   devFields = (if hasDev then map mkDevField ds else [])\<rparr>)\<rparr>)"
proof -
  define nf :: byte where "nf = of_nat (length fs)"
  define dtail where "dtail = (if hasDev then of_nat (length ds) # encodeFields ds else []) @ rest"
  define ftail where "ftail = encodeFields fs @ dtail"
  let ?p1 = "p\<lparr>offset := offset p + 1\<rparr>"
  let ?p2 = "?p1\<lparr>offset := offset ?p1 + 1\<rparr>"
  let ?p4 = "?p2\<lparr>offset := offset ?p2 + 2\<rparr>"
  let ?p5 = "?p4\<lparr>offset := offset ?p4 + 1\<rparr>"
  let ?p6 = "?p5\<lparr>offset := offset ?p5 + 3 * length fs\<rparr>"
  have le: "length (encodeFields xs) = 3 * length xs" for xs
    by (induction xs) (auto simp: encodeFields_def)
  from d have d0: "drop (offset p) (bytes p) = reserved # arch # g0 # g1 # nf # ftail"
    by (simp add: nf_def ftail_def dtail_def)
  from drop_eq_appendD(1) [of "offset p" "bytes p" "[reserved]" "arch # g0 # g1 # nf # ftail"] d0
  have d1: "drop (offset ?p1) (bytes ?p1) = arch # g0 # g1 # nf # ftail" by simp
  from drop_eq_appendD(1) [of "offset ?p1" "bytes ?p1" "[arch]" "g0 # g1 # nf # ftail"] d1
  have d2: "drop (offset ?p2) (bytes ?p2) = g0 # g1 # nf # ftail" by simp
  from drop_eq_appendD(1) [of "offset ?p2" "bytes ?p2" "[g0, g1]" "nf # ftail"] d2
  have d4: "drop (offset ?p4) (bytes ?p4) = nf # ftail" by simp
  from drop_eq_appendD(2) [of "offset ?p2" "bytes ?p2" "[g0, g1]" "nf # ftail"] d2
  have l2: "offset ?p2 + 2 \<le> length (bytes ?p2)" by simp
  from drop_eq_appendD(1) [of "offset ?p4" "bytes ?p4" "[nf]" ftail] d4
  have d5: "drop (offset ?p5) (bytes ?p5) = encodeFields fs @ dtail" by (simp add: ftail_def)
  from drop_eq_appendD(1) [of "offset ?p5" "bytes ?p5" "encodeFields fs" dtail] d5
  have d6: "drop (offset ?p6) (bytes ?p6) = dtail" by (simp add: le)
  have n1: "nextUint8 ?p1 = (Inr (unat arch), ?p2)" using next_byte [OF d1] .
  from getUint16_ok [OF l2] obtain g where
    g: "getUint16 (bytes ?p2) (offset ?p2) (unat arch = 0) = Inr g" by blast
  from lf have uf: "unat (of_nat (length fs) :: byte) = length fs"
    by (simp add: unat_of_nat)
  from ld have ud: "unat (of_nat (length ds) :: byte) = length ds"
    by (simp add: unat_of_nat)
  have n5: "nextUint8 ?p4 = (Inr (length fs), ?p5)" using next_byte [OF d4] uf by (simp add: nf_def)
  have r6: "readFieldDefs (length fs) ?p5 = (Inr (map mkField fs), ?p6)"
    using readFieldDefs_ok [OF d5] .
  have dv: "\<exists>q. (if hasDev then bindS nextUint8 readDevFieldDefs else returnS []) ?p6 =
               (Inr (if hasDev then map mkDevField ds else []), q) \<and>
             q = ?p6\<lparr>offset := offset ?p6 + (if hasDev then 1 + 3 * length ds else 0)\<rparr>"
  proof (cases hasDev)
    case False
    then show ?thesis by (simp add: returnS_def)
  next
    case True
    let ?p7 = "?p6\<lparr>offset := offset ?p6 + 1\<rparr>"
    define nd :: byte where "nd = of_nat (length ds)"
    from True d6 have e6: "drop (offset ?p6) (bytes ?p6) = nd # encodeFields ds @ rest"
      by (simp add: dtail_def nd_def)
    from drop_eq_appendD(1) [of "offset ?p6" "bytes ?p6" "[nd]" "encodeFields ds @ rest"] e6
    have e7: "drop (offset ?p7) (bytes ?p7) = encodeFields ds @ rest" by simp
    have n7: "nextUint8 ?p6 = (Inr (length ds), ?p7)" using next_byte [OF e6] ud by (simp add: nd_def)
    have "bindS nextUint8 readDevFieldDefs ?p6 = readDevFieldDefs (length ds) ?p7"
      by (rule bindS_ok [where m = nextUint8, OF n7])
    also have "\<dots> = (Inr (map mkDevField ds), ?p7\<lparr>offset := offset ?p7 + 3 * length ds\<rparr>)"
      by (rule readDevFieldDefs_ok [OF e7])
    finally show ?thesis using True by (simp add: add.assoc)
  qed
  then obtain q where q: "(if hasDev then bindS nextUint8 readDevFieldDefs else returnS []) ?p6 =
               (Inr (if hasDev then map mkDevField ds else []), q)"
      and qe: "q = ?p6\<lparr>offset := offset ?p6 + (if hasDev then 1 + 3 * length ds else 0)\<rparr>"
    by blast
  have "parseDefinition localType hasDev p =
           (Inr (),
            q\<lparr>definitions := (definitions q)
                (localType \<mapsto> \<lparr>globalMsgNum = g, littleEndian = (unat arch = 0),
                   fields' = map mkField fs,
                   devFields = (if hasDev then map mkDevField ds else [])\<rparr>)\<rparr>)"
    unfolding parseDefinition_def
    by (simp only: bindS_ok [where m = nextUint8, OF n1] g sum.case
          bindS_ok [where m = nextUint8, OF n5]
          bindS_ok [where m = "readFieldDefs (length fs)", OF r6]
          bindS_ok [where m = "if hasDev then bindS nextUint8 readDevFieldDefs else returnS []", OF q])
  then show ?thesis unfolding qe by (intro exI [of _ g]) (simp add: add.assoc)
qed

lemma view_read_width:
  "off + readerWidth rd \<le> length bs \<Longrightarrow> \<exists>v. view_read fl rd bs off le = Inr v"
  by (cases rd) (simp_all add: view_read_def getUint_def getInt_def getFloat_def)

lemma BASE_TYPES_width:
  assumes "BASE_TYPES k = Some t" and "read t = Some rd"
  shows "readerWidth rd = tsize t"
proof -
  from assms(1) have "(k, t) \<in> set
     [(0x00, \<lparr>tsize = 1, read = Some GetUint8, invalid = Some 0xFF\<rparr>),
      (0x01, \<lparr>tsize = 1, read = Some GetInt8, invalid = Some 0x7F\<rparr>),
      (0x02, \<lparr>tsize = 1, read = Some GetUint8, invalid = Some 0xFF\<rparr>),
      (0x83, \<lparr>tsize = 2, read = Some GetInt16, invalid = Some 0x7FFF\<rparr>),
      (0x84, \<lparr>tsize = 2, read = Some GetUint16, invalid = Some 0xFFFF\<rparr>),
      (0x85, \<lparr>tsize = 4, read = Some GetInt32, invalid = Some 0x7FFFFFFF\<rparr>),
      (0x86, \<lparr>tsize = 4, read = Some GetUint32, invalid = Some 0xFFFFFFFF\<rparr>),
      (0x07, \<lparr>tsize = 1, read = None, invalid = Some 0\<rparr>),
      (0x88, \<lparr>tsize = 4, read = Some GetFloat32, invalid = None\<rparr>),
      (0x89, \<lparr>tsize = 8, read = Some GetFloat64, invalid = None\<rparr>),
      (0x0A, \<lparr>tsize = 1, read = Some GetUint8, invalid = Some 0\<rparr>),
      (0x8B, \<lparr>tsize = 2, read = Some GetUint16, invalid = Some 0\<rparr>),
      (0x8C, \<lparr>tsize = 4, read = Some GetUint32, invalid = Some 0\<rparr>),
      (0x0D, \<lparr>tsize = 1, read = None, invalid = None\<rparr>)]"
    unfolding BASE_TYPES_def by (rule map_of_SomeD)
  then have "read t = None \<or> (\<exists>r. read t = Some r \<and> readerWidth r = tsize t)"
    unfolding set_simps insert_iff empty_iff prod.inject
    by (elim disjE conjE FalseE) simp_all
  with assms(2) show ?thesis by auto
qed

lemma view_read_ok:
  assumes "BASE_TYPES k = Some t" and "read t = Some rd" and "off + tsize t \<le> length bs"
  shows "\<exists>v. view_read fl rd bs off le = Inr v"
  using view_read_width [of off rd bs fl le] BASE_TYPES_width [OF assms(1,2)] assms(3) by simp

lemma readField_ok:
  assumes "offset p + fsize field \<le> length (bytes p)"
  shows "\<exists>v. readField fl field le p = (Inr v, p\<lparr>offset := offset p + fsize field\<rparr>)"
proof -
  let ?ti = "case BASE_TYPES (baseType field) of Some t \<Rightarrow> Some t
             | None \<Rightarrow> BASE_TYPES (baseType field AND 0x1F)"
  show ?thesis
  proof (cases ?ti)
    case None
    then show ?thesis by (simp add: readField_def Let_def)
  next
    case (Some t)
    then obtain k where k: "BASE_TYPES k = Some t" by (auto split: option.splits)
    show ?thesis
    proof (cases "read t")
      case None
      with Some show ?thesis by (simp add: readField_def Let_def)
    next
      case rd: (Some rd)
      show ?thesis
      proof (cases "fsize field = tsize t")
        case False
        with Some rd show ?thesis by (simp add: readField_def Let_def)
      next
        case True
        with assms have "offset p + tsize t \<le> length (bytes p)" by simp
        from view_read_ok [OF k rd this] obtain v where
          "view_read fl rd (bytes p) (offset p) le = Inr v" by blast
        with Some rd True show ?thesis by (simp add: readField_def Let_def)
      qed
    qed
  qed
qed

lemma readFields_ok:
  "offset p + sum_list (map fsize fs) \<le> length (bytes p) \<Longrightarrow>
   \<exists>m'. readFields fl le pf fs m p = (Inr m', p\<lparr>offset := offset p + sum_list (map fsize fs)\<rparr>)"
proof (induction fs arbitrary: m p)
  case Nil
  then show ?case by simp
next
  case (Cons f fs)
  let ?q = "p\<lparr>offset := offset p + fsize f\<rparr>"
  from Cons.prems have "offset p + fsize f \<le> length (bytes p)" by simp
  from readField_ok [OF this] obtain v where v: "readField fl f le p = (Inr v, ?q)" by blast
  from Cons.prems have "offset ?q + sum_list (map fsize fs) \<le> length (bytes ?q)" by simp
  from Cons.IH [OF this] v show ?case by (simp add: add.assoc)
qed

lemma parseDataMessage_ok2:
  assumes "definitions p localType = Some d"
      and "offset p + sum_list (map fsize (fields' d)) \<le> length (bytes p)"
  shows "\<exists>p'. parseDataMessage fl localType cts p = (Inr (), p') \<and>
              bytes p' = bytes p \<and> definitions p' = definitions p \<and>
              offset p' = offset p + sum_list (map fsize (fields' d))
                                   + sum_list (map dev_size (devFields d))"
proof -
  let ?pf = "case FIT_FIELDS (globalMsgNum d) of None \<Rightarrow> Map.empty | Some pf \<Rightarrow> pf"
  from readFields_ok [OF assms(2)] obtain m' where
    "readFields fl (littleEndian d) ?pf (fields' d) Map.empty p =
       (Inr m', p\<lparr>offset := offset p + sum_list (map fsize (fields' d))\<rparr>)" by blast
  with assms(1) show ?thesis
    by (simp add: parseDataMessage_def bindS_def Let_def split: option.splits)
qed

lemma length_encodeFields: "length (encodeFields xs) = 3 * length xs"
  by (induction xs) (auto simp: encodeFields_def)

lemma fieldSizes_mkField: "sum_list (map (fsize \<circ> mkField) fs) = fieldSizes fs"
  by (induction fs) (auto simp: fieldSizes_def mkField_def)

lemma fieldSizes_mkDevField: "sum_list (map (dev_size \<circ> mkDevField) fs) = fieldSizes fs"
  by (induction fs) (auto simp: fieldSizes_def mkDevField_def)

lemma record_step:
  assumes r: "drop (offset p) (bytes p) = encodeRecord r @ rest"
      and wf: "wf_records S (r # rs)"
      and S: "S = map_option recordSize \<circ> definitions p"
  shows "\<exists>p'. parseRecord fl p = (Inr (), p') \<and> bytes p' = bytes p \<and>
              offset p' = offset p + length (encodeRecord r) \<and>
              (\<exists>S'. wf_records S' rs \<and> S' = map_option recordSize \<circ> definitions p')"
proof (cases r)
  case (DefinitionRecord h reserved arch g0 g1 fs ds)
  let ?hasDev = "unat h AND 0x20 \<noteq> 0"
  let ?lt = "unat h AND 0x0F"
  let ?p1 = "p\<lparr>offset := offset p + 1\<rparr>"
  define body where "body = [reserved, arch, g0, g1, of_nat (length fs)] @ encodeFields fs @
               (if ?hasDev then of_nat (length ds) # encodeFields ds else []) @ rest"
  from r DefinitionRecord have d0: "drop (offset p) (bytes p) = h # body"
    by (simp add: body_def)
  from drop_eq_appendD(1) [of "offset p" "bytes p" "[h]" body] d0
  have d1: "drop (offset ?p1) (bytes ?p1) = body" by simp
  from wf DefinitionRecord have w: "unat h AND 0x80 = 0" "unat h AND 0x40 \<noteq> 0"
    "length fs < 256" "length ds < 256" "\<not> ?hasDev \<longrightarrow> ds = []"
    "wf_records (S(?lt \<mapsto> fieldSizes fs + fieldSizes ds)) rs"
    by simp_all
  from parseDefinition_ok [OF d1 [unfolded body_def] w(3,4), of ?lt]
  obtain g where g: "parseDefinition ?lt ?hasDev ?p1 =
           (Inr (),
            ?p1\<lparr>offset := offset ?p1 + 5 + 3 * length fs + (if ?hasDev then 1 + 3 * length ds else 0),
              definitions := (definitions ?p1)
                (?lt \<mapsto> \<lparr>globalMsgNum = g, littleEndian = (unat arch = 0),
                   fields' = map mkField fs,
                   devFields = (if ?hasDev then map mkDevField ds else [])\<rparr>)\<rparr>)"
    by blast
  let ?p' = "?p1\<lparr>offset := offset ?p1 + 5 + 3 * length fs + (if ?hasDev then 1 + 3 * length ds else 0),
              definitions := (definitions ?p1)
                (?lt \<mapsto> \<lparr>globalMsgNum = g, littleEndian = (unat arch = 0),
                   fields' = map mkField fs,
                   devFields = (if ?hasDev then map mkDevField ds else [])\<rparr>)\<rparr>"
  have n: "nextUint8 p = (Inr (unat h), ?p1)" using next_byte [OF d0] .
  have pr: "parseRecord fl p = (Inr (), ?p')"
    unfolding parseRecord_def bindS_ok [where m = nextUint8, OF n]
    using w(1,2) g by simp
  have len: "offset ?p' = offset p + length (encodeRecord r)"
    using DefinitionRecord by (simp add: length_encodeFields)
  have "fieldSizes [] = 0" by (simp add: fieldSizes_def)
  with w(5) have "recordSize \<lparr>globalMsgNum = g, littleEndian = (unat arch = 0),
                   fields' = map mkField fs,
                   devFields = (if ?hasDev then map mkDevField ds else [])\<rparr> =
                 fieldSizes fs + fieldSizes ds"
    by (cases ?hasDev) (simp_all add: recordSize_def fieldSizes_mkField fieldSizes_mkDevField)
  then have "S(?lt \<mapsto> fieldSizes fs + fieldSizes ds) = map_option recordSize \<circ> definitions ?p'"
    using S by (simp add: fun_eq_iff)
  with w(6) pr len show ?thesis by (intro exI [of _ ?p']) auto
next
  case (DataRecord h payload)
  let ?p1 = "p\<lparr>offset := offset p + 1\<rparr>"
  from r DataRecord have d0: "drop (offset p) (bytes p) = h # payload @ rest" by simp
  from drop_eq_appendD(2) [of "offset p" "bytes p" "h # payload" rest] d0
  have l: "offset p + 1 + length payload \<le> length (bytes p)" by simp
  have n: "nextUint8 p = (Inr (unat h), ?p1)" using next_byte [OF d0] .
  from wf DataRecord have w: "unat h AND 0x80 \<noteq> 0 \<or> unat h AND 0x40 = 0"
    "S (localTypeOf h) = Some (length payload)" "wf_records S rs"
    by simp_all
  from w(2) S obtain d where d: "definitions p (localTypeOf h) = Some d" "recordSize d = length payload"
    by auto
  have res: "\<exists>p'. parseDataMessage fl (localTypeOf h) cts q = (Inr (), p') \<and>
              bytes p' = bytes p \<and> definitions p' = definitions p \<and>
              offset p' = offset p + 1 + length payload"
    if q: "bytes q = bytes p" "definitions q = definitions p" "offset q = offset p + 1" for q cts
  proof -
    from d q have a: "definitions q (localTypeOf h) = Some d" by simp
    from d(2) l q have b: "offset q + sum_list (map fsize (fields' d)) \<le> length (bytes q)"
      by (simp add: recordSize_def)
    from parseDataMessage_ok2 [OF a b, of fl cts] d(2) q show ?thesis
      by (auto simp: recordSize_def)
  qed
  have "\<exists>p'. parseRecord fl p = (Inr (), p') \<and> bytes p' = bytes p \<and>
          definitions p' = definitions p \<and> offset p' = offset p + 1 + length payload"
  proof (cases "unat h AND 0x80 \<noteq> 0")
    case True
    then have lt: "localTypeOf h = drop_bit 5 (unat h) AND 0x03" by (simp add: localTypeOf_def)
    let ?ts = "let timeOffset = of_nat (unat h AND 0x1F);
                   prev = lastTimestamp ?p1;
                   ts = fadd (js_and prev 0xFFFFFFE0) timeOffset
               in if timeOffset < js_and prev 0x1F then fadd ts 0x20 else ts"
    from True have e: "parseRecord fl p =
        parseDataMessage fl (localTypeOf h) (Some ?ts) (?p1\<lparr>lastTimestamp := ?ts\<rparr>)"
      unfolding parseRecord_def bindS_ok [where m = nextUint8, OF n]
      by (simp add: Let_def lt [symmetric])
    from res [of "?p1\<lparr>lastTimestamp := ?ts\<rparr>" "Some ?ts"] show ?thesis
      unfolding e by simp
  next
    case False
    with w(1) have z: "unat h AND 0x40 = 0" by simp
    from False have lt: "localTypeOf h = unat h AND 0x0F" by (simp add: localTypeOf_def)
    from False z have e: "parseRecord fl p = parseDataMessage fl (localTypeOf h) None ?p1"
      unfolding parseRecord_def bindS_ok [where m = nextUint8, OF n]
      by (simp add: lt [symmetric])
    from res [of ?p1 None] show ?thesis
      unfolding e by simp
  qed
  then obtain p' where p': "parseRecord fl p = (Inr (), p')" "bytes p' = bytes p"
    "definitions p' = definitions p" "offset p' = offset p + 1 + length payload" by blast
  with w(3) S DataRecord show ?thesis by (intro exI [of _ p']) auto
qed

lemma encodeRecord_nonempty: "0 < length (encodeRecord r)"
  by (cases r) simp_all

lemma parseLoop_wf:
  "wf_records S rs \<Longrightarrow> S = map_option recordSize \<circ> definitions p \<Longrightarrow>
   drop (offset p) (bytes p) = concat (map encodeRecord rs) @ rest \<Longrightarrow>
   dataEnd = offset p + length (concat (map encodeRecord rs)) \<Longrightarrow>
   offset (parseLoop fl dataEnd p) = dataEnd \<and> decoded fl dataEnd p (parseLoop fl dataEnd p)"
proof (induction rs arbitrary: S p)
  case Nil
  then have "parseLoop fl dataEnd p = p" by (subst parseLoop.simps) simp
  with Nil show ?case by (simp add: decoded_none)
next
  case (Cons r rs)
  let ?rest = "concat (map encodeRecord rs) @ rest"
  from Cons.prems(3) have d: "drop (offset p) (bytes p) = encodeRecord r @ ?rest" by simp
  from record_step [OF d Cons.prems(1,2), of fl] obtain p' S' where
    p': "parseRecord fl p = (Inr (), p')" "bytes p' = bytes p"
        "offset p' = offset p + length (encodeRecord r)"
        "wf_records S' rs" "S' = map_option recordSize \<circ> definitions p'"
    by blast
  from drop_eq_appendD(1) [OF d] p'(2,3)
  have d': "drop (offset p') (bytes p') = ?rest" by simp
  from Cons.prems(4) p'(3)
  have e: "dataEnd = offset p' + length (concat (map encodeRecord rs))" by simp
  from Cons.prems(4) encodeRecord_nonempty [of r] have lt: "offset p < dataEnd" by simp
  from Cons.IH [OF p'(4,5) d' e]
  have ih: "offset (parseLoop fl dataEnd p') = dataEnd"
           "decoded fl dataEnd p' (parseLoop fl dataEnd p')" by simp_all
  from lt p'(1) have u: "parseLoop fl dataEnd p = parseLoop fl dataEnd p'"
    by (subst parseLoop.simps) simp
  from decoded_record [OF lt p'(1) ih(2)] ih(1) show ?case unfolding u by simp
qed

text \<open>
  Claim C2. For a well-formed stream, \<open>parse\<close> returns without an error and leaves the
  cursor at exactly the header length plus the payload length that the header declares.
\<close>

theorem decode_consumes_header_and_payload:
  assumes "wf_stream bs rs"
  shows "\<exists>ms pf. parse fl (FitParser bs) = (Inr ms, pf) \<and>
           offset pf = unat (bs ! 0) + le_nat (take 4 (drop 4 bs))"
proof -
  let ?hs = "unat (bs ! 0)" and ?ds = "le_nat (take 4 (drop 4 bs))"
  let ?p = "FitParser bs"
  let ?p1 = "?p\<lparr>dataSize := ?ds, offset := ?hs, dataOffset := ?hs\<rparr>"
  from assms have w: "12 \<le> ?hs" "?hs + ?ds \<le> length bs"
    "take 4 (drop 8 bs) = [0x2E, 0x46, 0x49, 0x54]"
    "take ?ds (drop ?hs bs) = concat (map encodeRecord rs)"
    "wf_records Map.empty rs"
    by (simp_all add: wf_stream_def Let_def)
  from w(3) have "slice (bytes ?p) 8 12 = [0x2E, 0x46, 0x49, 0x54]"
    by (simp add: slice_def FitParser_def)
  from parseHeader_ok [OF this] have h: "parseHeader ?p = (Inr (), ?p1)"
    by (simp add: FitParser_def)
  have S: "Map.empty = map_option recordSize \<circ> definitions ?p1"
    by (simp add: FitParser_def fun_eq_iff)
  from w(4) append_take_drop_id [of ?ds "drop ?hs bs"]
  have d: "drop (offset ?p1) (bytes ?p1) = concat (map encodeRecord rs) @ drop ?ds (drop ?hs bs)"
    by (simp add: FitParser_def)
  have "length (concat (map encodeRecord rs)) = length (take ?ds (drop ?hs bs))"
    by (simp only: w(4))
  also from w(2) have "\<dots> = ?ds" by simp
  finally have "length (concat (map encodeRecord rs)) = ?ds" .
  then have e: "dataOffset ?p1 + dataSize ?p1 = offset ?p1 + length (concat (map encodeRecord rs))"
    by simp
  from parseLoop_wf [OF w(5) S d e, of fl]
  have "offset (parseLoop fl (dataOffset ?p1 + dataSize ?p1) ?p1) = ?hs + ?ds" by simp
  with h show ?thesis by (simp add: parse_def Let_def)
qed

lemma stream4_wf: "wf_stream stream4 records4"
proof -
  have h: "unat (stream4 ! 0) = 12" "le_nat (take 4 (drop 4 stream4)) = 43" "length stream4 = 57"
    by (simp_all add: stream4_def le_nat_def)
  have s: "take 4 (drop 8 stream4) = [0x2E, 0x46, 0x49, 0x54]"
    by (simp add: stream4_def)
  have e: "take 43 (drop 12 stream4) = concat (map encodeRecord records4)"
    by (simp add: stream4_def records4_def encodeFields_def)
  have w: "wf_records Map.empty records4"
    by (simp add: records4_def fieldSizes_def localTypeOf_def drop_bit_eq_div)
  from h s e w show ?thesis by (simp add: wf_stream_def Let_def)
qed

theorem decode_consumes_header_and_payload_witness:
  "\<exists>ms pf. parse fl0 (FitParser stream4) = (Inr ms, pf) \<and> offset pf = 12 + 43"
proof -
  have h: "unat (stream4 ! 0) = 12" "le_nat (take 4 (drop 4 stream4)) = 43"
    by (simp_all add: stream4_def le_nat_def)
  from decode_consumes_header_and_payload [OF stream4_wf, of fl0] show ?thesis
    unfolding h .
qed

end

